theory Spec2Isabelle
  imports Main
begin

section \<open>JavaScript values\<close>

text \<open>
  The instructions and their arguments are JSON data.  A value is what \<open>JSON.parse\<close> can
  return, plus \<open>undefined\<close> for a missing property.  Numbers are the integers (the tool
  schemas have no numeric field).  An object is the list of its own properties.
\<close>

datatype jsval =
    JUndefined
  | JNull
  | JBool bool
  | JNum int
  | JStr string
  | JArr "jsval list"
  | JObj "(string \<times> jsval) list"

text \<open>What JavaScript throws; \<open>message\<close> is the \<open>error.message\<close> a handler reads.\<close>

datatype js_error =
    Error string
  | TypeError string
  | DOMException string
  | RangeError string

fun message :: "js_error \<Rightarrow> string" where
  "message (Error m) = m"
| "message (TypeError m) = m"
| "message (DOMException m) = m"
| "message (RangeError m) = m"

text \<open>\<open>!v\<close> is \<open>\<not> truthy v\<close>.\<close>

fun truthy :: "jsval \<Rightarrow> bool" where
  "truthy JUndefined = False"
| "truthy JNull = False"
| "truthy (JBool b) = b"
| "truthy (JNum n) = (n \<noteq> 0)"
| "truthy (JStr s) = (s \<noteq> [])"
| "truthy (JArr xs) = True"
| "truthy (JObj kvs) = True"

text \<open>\<open>a || b\<close>\<close>

definition js_or :: "jsval \<Rightarrow> jsval \<Rightarrow> jsval" where
  "js_or a b = (if truthy a then a else b)"

text \<open>\<open>typeof v === 'string'\<close>\<close>

fun is_string :: "jsval \<Rightarrow> bool" where
  "is_string (JStr s) = True"
| "is_string v = False"

text \<open>Decimal digits of a natural number, and of an integer.\<close>

function digits :: "nat \<Rightarrow> string" where
  "digits n = (if n < 10 then [char_of (48 + n)] else digits (n div 10) @ [char_of (48 + n mod 10)])"
  by pat_completeness auto
termination
  by (relation "measure id") auto

declare digits.simps [simp del]

definition show_int :: "int \<Rightarrow> string" where
  "show_int i = (if i < 0 then CHR ''-'' # digits (nat (- i)) else digits (nat i))"

fun join :: "string \<Rightarrow> string list \<Rightarrow> string" where
  "join sep [] = []"
| "join sep [x] = x"
| "join sep (x # y # ys) = x @ sep @ join sep (y # ys)"

text \<open>
  \<open>String(v)\<close>, which is also how a template literal prints \<open>v\<close>.  An array prints its
  elements joined by commas, with \<open>null\<close> and \<open>undefined\<close> elements printed empty.
\<close>

fun to_String :: "jsval \<Rightarrow> string" where
  "to_String JUndefined = ''undefined''"
| "to_String JNull = ''null''"
| "to_String (JBool b) = (if b then ''true'' else ''false'')"
| "to_String (JNum n) = show_int n"
| "to_String (JStr s) = s"
| "to_String (JArr xs) =
     join '','' (map (\<lambda>x. if x = JUndefined \<or> x = JNull then [] else to_String x) xs)"
| "to_String (JObj kvs) = ''[object Object]''"

text \<open>
  \<open>v.k\<close> for the property names the code reads (none of them is a property of a string,
  an array, a number or a boolean).  Reading a property of \<open>null\<close> or \<open>undefined\<close> throws;
  the callers test for that first.
\<close>

fun get_prop :: "jsval \<Rightarrow> string \<Rightarrow> jsval" where
  "get_prop (JObj kvs) k = (case map_of kvs k of Some v \<Rightarrow> v | None \<Rightarrow> JUndefined)"
| "get_prop v k = JUndefined"

fun indexed :: "nat \<Rightarrow> jsval list \<Rightarrow> (string \<times> jsval) list" where
  "indexed i [] = []"
| "indexed i (x # xs) = (digits i, x) # indexed (Suc i) xs"

text \<open>The own enumerable properties of a value (\<open>Object.entries\<close>, rest destructuring).\<close>

fun entries :: "jsval \<Rightarrow> (string \<times> jsval) list" where
  "entries (JObj kvs) = kvs"
| "entries (JArr xs) = indexed 0 xs"
| "entries (JStr s) = indexed 0 (map (\<lambda>c. JStr [c]) s)"
| "entries v = []"

section \<open>The Node Store: \<open>DOMManager\<close>\<close>

text \<open>
  \<open>this.elements\<close> is a \<open>Map\<close> from element id to \<open>{ node, parentId, children }\<close>.  Keys are
  compared as the \<open>Map\<close> compares the values JSON produces (a string is not the number it
  prints).  \<open>children\<close> is a \<open>Set\<close>: a list in insertion order without repetition.
  Of the DOM node the model keeps the tag name, the text last written to \<open>textContent\<close>,
  and the attributes.  The document tree belongs to the browser and is not modelled: there,
  \<open>textContent\<close> also reads the text of the DOM children appended since, and a write to it
  detaches them.
\<close>

record dom_node =
  tagName :: string
  textContent :: string
  attributes :: "(string \<times> jsval) list"

record elementInfo =
  node :: dom_node
  parentId :: jsval
  children :: "jsval list"

record dom_manager =
  elements :: "jsval \<rightharpoonup> elementInfo"
  idCalls :: nat

text \<open>
  What the platform decides: \<open>JSON.parse\<close> (\<open>None\<close> when it throws), whether
  \<open>document.createElement(tagName)\<close> accepts the name, what the attribute loop of
  \<open>setProps\<close> does to a node (with the error it stopped at, if any), the k-th value of
  \<open>generateId()\<close> (built from the clock and \<open>Math.random\<close>), the properties that the
  tool table inherits from \<open>Object.prototype\<close>, \<open>JSON.stringify\<close> (on JSON data it does not
  throw; it gives \<open>undefined\<close> for \<open>undefined\<close>), and the k-th reading of \<open>Date.now()\<close>.
\<close>

record platform =
  JSON_parse :: "string \<Rightarrow> jsval option"
  tag_ok :: "string \<Rightarrow> bool"
  set_rest :: "(string \<times> jsval) list \<Rightarrow> dom_node \<Rightarrow> dom_node \<times> js_error option"
  generated :: "nat \<Rightarrow> string"
  inherited :: "string \<Rightarrow> (jsval list \<Rightarrow> js_error + jsval) option"
  JSON_stringify :: "jsval \<Rightarrow> jsval"
  Date_now :: "nat \<Rightarrow> int"

definition root :: jsval where
  "root = JStr ''root''"

text \<open>\<open>Set.prototype.add\<close> and \<open>Set.prototype.delete\<close> on the insertion-ordered list.\<close>

definition set_add :: "'a \<Rightarrow> 'a list \<Rightarrow> 'a list" where
  "set_add x xs = (if x \<in> set xs then xs else xs @ [x])"

definition set_delete :: "'a \<Rightarrow> 'a list \<Rightarrow> 'a list" where
  "set_delete x xs = removeAll x xs"

text \<open>An outcome is what was returned or thrown, and the store as the call left it.\<close>

type_synonym 'a outcome = "(js_error + 'a) \<times> dom_manager"

definition not_found :: "jsval \<Rightarrow> js_error" where
  "not_found elementId = Error (''Element with id \"'' @ to_String elementId @ ''\" not found'')"

text \<open>\<open>DOMManager.setText(elementId, text)\<close>\<close>

definition dm_setText :: "jsval \<Rightarrow> string \<Rightarrow> dom_manager \<Rightarrow> unit outcome" where
  "dm_setText elementId text m =
     (case elements m elementId of
        None \<Rightarrow> (Inl (not_found elementId), m)
      | Some elementInfo \<Rightarrow>
          (Inr (), m\<lparr>elements := (elements m)(elementId \<mapsto>
             elementInfo\<lparr>node := (node elementInfo)\<lparr>textContent := text\<rparr>\<rparr>)\<rparr>))"

text \<open>\<open>DOMManager.appendText(elementId, text)\<close>: \<open>node.textContent += text\<close>\<close>

definition dm_appendText :: "jsval \<Rightarrow> string \<Rightarrow> dom_manager \<Rightarrow> unit outcome" where
  "dm_appendText elementId text m =
     (case elements m elementId of
        None \<Rightarrow> (Inl (not_found elementId), m)
      | Some elementInfo \<Rightarrow>
          (Inr (), m\<lparr>elements := (elements m)(elementId \<mapsto>
             elementInfo\<lparr>node := (node elementInfo)
               \<lparr>textContent := textContent (node elementInfo) @ text\<rparr>\<rparr>)\<rparr>))"

text \<open>
  \<open>DOMManager.setProps(node, props)\<close>.  Destructuring \<open>null\<close> or \<open>undefined\<close> throws.
  \<open>textContent\<close> is written first; the loop over the remaining properties (all but
  \<open>id\<close>, \<open>children\<close> and \<open>textContent\<close>) writes attributes, classes, styles and inner HTML
  through the DOM and is the platform's.
\<close>

definition setProps :: "platform \<Rightarrow> dom_node \<Rightarrow> jsval \<Rightarrow> dom_node \<times> js_error option" where
  "setProps P node0 props =
     (if props = JNull \<or> props = JUndefined
      then (node0, Some (TypeError ''Cannot destructure props''))
      else
        let textContentProp = get_prop props ''textContent'';
            node1 = (if textContentProp \<noteq> JUndefined \<and> textContentProp \<noteq> JNull
                     then node0\<lparr>textContent := to_String textContentProp\<rparr> else node0);
            restProps = filter (\<lambda>kv. fst kv \<noteq> ''id'' \<and> fst kv \<noteq> ''children''
                                  \<and> fst kv \<noteq> ''textContent'') (entries props)
        in set_rest P restProps node1)"

text \<open>
  A \<open>for ... of\<close> loop whose body may throw: the first exception ends the loop and is the
  loop's outcome, with the store as the body left it.
\<close>

fun for_each :: "('a \<Rightarrow> dom_manager \<Rightarrow> unit outcome) \<Rightarrow> 'a list \<Rightarrow> dom_manager \<Rightarrow> unit outcome" where
  "for_each body [] m = (Inr (), m)"
| "for_each body (x # xs) m =
     (case body x m of
        (Inl e, m1) \<Rightarrow> (Inl e, m1)
      | (Inr u, m1) \<Rightarrow> for_each body xs m1)"

definition stack_overflow :: js_error where
  "stack_overflow = RangeError ''Maximum call stack size exceeded''"

text \<open>
  \<open>DOMManager.removeElement(elementId)\<close>.  The first argument is the number of nested calls
  the engine's stack still admits; a call beyond it throws \<open>RangeError\<close>, as the engine
  does, and the store keeps what the calls before it did.

  The loop runs over the children as they were when it started.  The source iterates the
  live \<open>Set\<close>, from which the calls it makes delete entries; an entry is deleted there only by
  the call that then deletes that id from the map, nothing is added, and on an id that is
  no longer live the call returns at once: so the two loops make the same changes.
  \<open>elementInfo.parentId\<close> never changes after creation.
\<close>

primrec dm_removeElement :: "nat \<Rightarrow> jsval \<Rightarrow> dom_manager \<Rightarrow> unit outcome" where
  "dm_removeElement 0 = (\<lambda>elementId m. (Inl stack_overflow, m))"
| "dm_removeElement (Suc depth) = (\<lambda>elementId m.
     case elements m elementId of
       None \<Rightarrow> (Inr (), m)
     | Some elementInfo \<Rightarrow>
        (case for_each (dm_removeElement depth) (children elementInfo) m of
           (Inl e, m1) \<Rightarrow> (Inl e, m1)
         | (Inr u, m1) \<Rightarrow>
            (let es1 =
               (if truthy (parentId elementInfo) \<and> parentId elementInfo \<noteq> root
                then (case elements m1 (parentId elementInfo) of
                        None \<Rightarrow> elements m1
                      | Some parentInfo \<Rightarrow> (elements m1)(parentId elementInfo \<mapsto>
                          parentInfo\<lparr>children := set_delete elementId (children parentInfo)\<rparr>))
                else elements m1)
             in (Inr (), m1\<lparr>elements := es1(elementId := None)\<rparr>))))"

text \<open>
  \<open>DOMManager.createElement(parentId, tagName, props = {})\<close>, in the order of the source:
  the id (given or generated), the removal of a live element with that id, the new DOM
  node and its properties, the record in the map, the entry in the parent's child set.
\<close>

definition dm_createElement ::
  "platform \<Rightarrow> nat \<Rightarrow> jsval \<Rightarrow> string \<Rightarrow> jsval \<Rightarrow> dom_manager \<Rightarrow> jsval outcome" where
  "dm_createElement P depth parentId0 tagName0 props0 m =
     (let props = (if props0 = JUndefined then JObj [] else props0) in
      if props = JNull then (Inl (TypeError ''Cannot read properties of null (reading 'id')''), m)
      else
        let given = get_prop props ''id'';
            elementId = (if truthy given then given else JStr (generated P (idCalls m)));
            m0 = (if truthy given then m else m\<lparr>idCalls := Suc (idCalls m)\<rparr>);
            removed = (if elements m0 elementId \<noteq> None
                       then dm_removeElement depth elementId m0 else (Inr (), m0))
        in case removed of
             (Inl e, m1) \<Rightarrow> (Inl e, m1)
           | (Inr u, m1) \<Rightarrow>
              if \<not> tag_ok P tagName0
              then (Inl (DOMException ''The tag name provided is not a valid name''), m1)
              else
                (case setProps P \<lparr>tagName = tagName0, textContent = [], attributes = []\<rparr> props of
                   (node1, Some e) \<Rightarrow> (Inl e, m1)
                 | (node1, None) \<Rightarrow>
                    let elementInfo = \<lparr>node = node1, parentId = js_or parentId0 root, children = []\<rparr>;
                        es1 = (elements m1)(elementId \<mapsto> elementInfo);
                        es2 = (if truthy parentId0 \<and> parentId0 \<noteq> root
                               then (case es1 parentId0 of
                                       None \<Rightarrow> es1
                                     | Some parentInfo \<Rightarrow> es1(parentId0 \<mapsto>
                                         parentInfo\<lparr>children := set_add elementId (children parentInfo)\<rparr>))
                               else es1)
                    in (Inr elementId, m1\<lparr>elements := es2\<rparr>)))"

text \<open>
  \<open>DOMManager.updateElement(elementId, props)\<close>.  \<open>setProps\<close> works on the node in the map,
  so what it wrote before throwing stays.  A \<open>props.id\<close> that differs from \<open>elementId\<close>
  re-keys the record and replaces the entry in the parent's child set.
\<close>

definition dm_updateElement :: "platform \<Rightarrow> jsval \<Rightarrow> jsval \<Rightarrow> dom_manager \<Rightarrow> unit outcome" where
  "dm_updateElement P elementId props m =
     (case elements m elementId of
        None \<Rightarrow> (Inl (not_found elementId), m)
      | Some elementInfo0 \<Rightarrow>
         (case setProps P (node elementInfo0) props of
            (node1, Some e) \<Rightarrow>
              (Inl e, m\<lparr>elements := (elements m)(elementId \<mapsto> elementInfo0\<lparr>node := node1\<rparr>)\<rparr>)
          | (node1, None) \<Rightarrow>
              let elementInfo = elementInfo0\<lparr>node := node1\<rparr>;
                  es0 = (elements m)(elementId \<mapsto> elementInfo)
              in if truthy (get_prop props ''id'') \<and> get_prop props ''id'' \<noteq> elementId
                 then
                   let oldId = elementId;
                       newId = get_prop props ''id'';
                       es1 = (es0(newId \<mapsto> elementInfo))(oldId := None);
                       es2 = (if truthy (parentId elementInfo) \<and> parentId elementInfo \<noteq> root
                              then (case es1 (parentId elementInfo) of
                                      None \<Rightarrow> es1
                                    | Some parentInfo \<Rightarrow> es1(parentId elementInfo \<mapsto>
                                        parentInfo\<lparr>children :=
                                          set_add newId (set_delete oldId (children parentInfo))\<rparr>))
                              else es1)
                   in (Inr (), m\<lparr>elements := es2\<rparr>)
                 else (Inr (), m\<lparr>elements := es0\<rparr>)))"

section \<open>The tool functions\<close>

text \<open>
  The tools are bound to a context whose \<open>domManager\<close> is set by the handler's constructor,
  so their first test never fires.  A parameter the caller leaves out is \<open>undefined\<close>.
\<close>

definition bad_elementId :: "jsval \<Rightarrow> bool" where
  "bad_elementId elementId = (\<not> truthy elementId \<or> \<not> is_string elementId)"

definition ok_result :: "jsval \<Rightarrow> jsval" where
  "ok_result elementId = JObj [(''success'', JBool True), (''elementId'', elementId)]"

definition elementId_error :: js_error where
  "elementId_error = Error ''elementId must be a non-empty string''"

text \<open>\<open>h(parentId, tagName, props = {})\<close>\<close>

definition h :: "platform \<Rightarrow> nat \<Rightarrow> jsval \<Rightarrow> jsval \<Rightarrow> jsval \<Rightarrow> dom_manager \<Rightarrow> jsval outcome" where
  "h P depth parentId0 tagName0 props0 m =
     (let props = (if props0 = JUndefined then JObj [] else props0) in
      if \<not> truthy tagName0 \<or> \<not> is_string tagName0
      then (Inl (Error ''tagName must be a non-empty string''), m)
      else
        let parentId1 = (if parentId0 = JStr ''null'' \<or> parentId0 = JNull \<or> parentId0 = JUndefined
                         then root else parentId0);
            parentId2 = (if truthy parentId1 \<and> parentId1 \<noteq> root
                         then (case elements m parentId1 of None \<Rightarrow> root | Some parentElement \<Rightarrow> parentId1)
                         else parentId1)
        in dm_createElement P depth (js_or parentId2 root) (to_String tagName0) props m)"

text \<open>\<open>updateElement(elementId, props = {})\<close>\<close>

definition updateElement :: "platform \<Rightarrow> jsval \<Rightarrow> jsval \<Rightarrow> dom_manager \<Rightarrow> jsval outcome" where
  "updateElement P elementId props0 m =
     (let props = (if props0 = JUndefined then JObj [] else props0) in
      if bad_elementId elementId then (Inl elementId_error, m)
      else (case dm_updateElement P elementId props m of
              (Inl e, m1) \<Rightarrow> (Inl e, m1)
            | (Inr u, m1) \<Rightarrow> (Inr (ok_result elementId), m1)))"

text \<open>\<open>setText(elementId, text)\<close>: the store gets \<open>String(text || '')\<close>.\<close>

definition setText :: "jsval \<Rightarrow> jsval \<Rightarrow> dom_manager \<Rightarrow> jsval outcome" where
  "setText elementId text m =
     (if bad_elementId elementId then (Inl elementId_error, m)
      else (case dm_setText elementId (to_String (js_or text (JStr []))) m of
              (Inl e, m1) \<Rightarrow> (Inl e, m1)
            | (Inr u, m1) \<Rightarrow> (Inr (ok_result elementId), m1)))"

text \<open>\<open>appendText(elementId, text)\<close>\<close>

definition appendText :: "jsval \<Rightarrow> jsval \<Rightarrow> dom_manager \<Rightarrow> jsval outcome" where
  "appendText elementId text m =
     (if bad_elementId elementId then (Inl elementId_error, m)
      else (case dm_appendText elementId (to_String (js_or text (JStr []))) m of
              (Inl e, m1) \<Rightarrow> (Inl e, m1)
            | (Inr u, m1) \<Rightarrow> (Inr (ok_result elementId), m1)))"

text \<open>\<open>removeElement(elementId)\<close>\<close>

definition removeElement :: "nat \<Rightarrow> jsval \<Rightarrow> dom_manager \<Rightarrow> jsval outcome" where
  "removeElement depth elementId m =
     (if bad_elementId elementId then (Inl elementId_error, m)
      else (case dm_removeElement depth elementId m of
              (Inl e, m1) \<Rightarrow> (Inl e, m1)
            | (Inr u, m1) \<Rightarrow> (Inr (ok_result elementId), m1)))"

section \<open>The Dispatcher: \<open>ToolCallHandler\<close>\<close>

record toolCall =
  name :: jsval
  arguments :: jsval

definition own_tools :: "string list" where
  "own_tools = [''h'', ''updateElement'', ''setText'', ''appendText'', ''removeElement'']"

text \<open>The i-th argument of a call; one that was not passed is \<open>undefined\<close>.\<close>

definition arg :: "jsval list \<Rightarrow> nat \<Rightarrow> jsval" where
  "arg argv i = (if i < length argv then argv ! i else JUndefined)"

text \<open>
  \<open>this.boundTools[key](...argv)\<close>.  The table holds the five tools; any other key finds
  what \<open>Object.prototype\<close> has under it, if anything.
\<close>

definition call_tool ::
  "platform \<Rightarrow> nat \<Rightarrow> string \<Rightarrow> jsval list \<Rightarrow> dom_manager \<Rightarrow> jsval outcome" where
  "call_tool P depth key argv m =
     (if key = ''h'' then h P depth (arg argv 0) (arg argv 1) (arg argv 2) m
      else if key = ''updateElement'' then updateElement P (arg argv 0) (arg argv 1) m
      else if key = ''setText'' then setText (arg argv 0) (arg argv 1) m
      else if key = ''appendText'' then appendText (arg argv 0) (arg argv 1) m
      else if key = ''removeElement'' then removeElement depth (arg argv 0) m
      else (case inherited P key of
              Some f \<Rightarrow> (f argv, m)
            | None \<Rightarrow> (Inl (TypeError ''toolFn is not a function''), m)))"

text \<open>\<open>this.boundTools[name]\<close> is truthy\<close>

definition bound :: "platform \<Rightarrow> string \<Rightarrow> bool" where
  "bound P key = (key \<in> set own_tools \<or> inherited P key \<noteq> None)"

text \<open>The arguments as an object: a string is parsed, anything else is \<open>args || {}\<close>.\<close>

definition parse_arguments :: "platform \<Rightarrow> jsval \<Rightarrow> js_error + jsval" where
  "parse_arguments P args =
     (case args of
        JStr s \<Rightarrow> (case JSON_parse P s of
                     None \<Rightarrow> Inl (Error (''Invalid JSON arguments: '' @ s))
                   | Some v \<Rightarrow> Inr v)
      | _ \<Rightarrow> Inr (js_or args (JObj [])))"

text \<open>
  \<open>ToolCallHandler.executeToolCall(toolCall)\<close>.  The \<open>catch\<close> around the call of the tool
  logs and throws the error again, so an error of the tool is the outcome.  Reading a
  property of a \<open>null\<close> argument object throws inside that \<open>try\<close>.
\<close>

definition executeToolCall :: "platform \<Rightarrow> nat \<Rightarrow> toolCall \<Rightarrow> dom_manager \<Rightarrow> jsval outcome" where
  "executeToolCall P depth toolCall m =
     (if \<not> truthy (name toolCall) \<or> \<not> bound P (to_String (name toolCall))
      then (Inl (Error (''Unknown tool: '' @ to_String (name toolCall))), m)
      else
        (case parse_arguments P (arguments toolCall) of
           Inl e \<Rightarrow> (Inl e, m)
         | Inr parsedArgs \<Rightarrow>
            if name toolCall = JStr ''h'' \<or> name toolCall = JStr ''updateElement''
               \<or> name toolCall = JStr ''setText'' \<or> name toolCall = JStr ''appendText''
               \<or> name toolCall = JStr ''removeElement''
            then
              (if parsedArgs = JNull \<or> parsedArgs = JUndefined
               then (Inl (TypeError ''Cannot read properties of null''), m)
               else if name toolCall = JStr ''h''
               then call_tool P depth ''h''
                      [get_prop parsedArgs ''parentId'', get_prop parsedArgs ''tagName'',
                       js_or (get_prop parsedArgs ''props'') (JObj [])] m
               else if name toolCall = JStr ''updateElement''
               then call_tool P depth ''updateElement''
                      [get_prop parsedArgs ''elementId'',
                       js_or (get_prop parsedArgs ''props'') (JObj [])] m
               else if name toolCall = JStr ''setText'' \<or> name toolCall = JStr ''appendText''
               then call_tool P depth (to_String (name toolCall))
                      [get_prop parsedArgs ''elementId'',
                       js_or (get_prop parsedArgs ''text'') (JStr [])] m
               else call_tool P depth ''removeElement'' [get_prop parsedArgs ''elementId''] m)
            else call_tool P depth (to_String (name toolCall))
                   (case parsedArgs of JArr xs \<Rightarrow> xs | _ \<Rightarrow> [parsedArgs]) m))"

text \<open>An entry of the batch's result: \<open>{success: true, result, toolCall}\<close> or
  \<open>{success: false, error, toolCall}\<close>.\<close>

datatype batch_entry =
    Succeeded jsval toolCall
  | Failed string toolCall

fun success :: "batch_entry \<Rightarrow> bool" where
  "success (Succeeded r c) = True"
| "success (Failed e c) = False"

fun entry_call :: "batch_entry \<Rightarrow> toolCall" where
  "entry_call (Succeeded r c) = c"
| "entry_call (Failed e c) = c"

text \<open>\<open>ToolCallHandler.executeToolCalls(toolCalls)\<close>\<close>

fun executeToolCalls ::
  "platform \<Rightarrow> nat \<Rightarrow> toolCall list \<Rightarrow> dom_manager \<Rightarrow> batch_entry list \<times> dom_manager" where
  "executeToolCalls P depth [] m = ([], m)"
| "executeToolCalls P depth (toolCall # toolCalls) m =
     (case executeToolCall P depth toolCall m of
        (Inr r, m1) \<Rightarrow>
          (case executeToolCalls P depth toolCalls m1 of
             (results, m2) \<Rightarrow> (Succeeded r toolCall # results, m2))
      | (Inl e, m1) \<Rightarrow>
          (case executeToolCalls P depth toolCalls m1 of
             (results, m2) \<Rightarrow> (Failed (message e) toolCall # results, m2)))"

section \<open>A reader for JSON text\<close>

text \<open>
  The theorems below hold for whatever \<open>JSON.parse\<close> the platform has.  The examples need
  one that runs: this reader accepts the JSON texts made of objects, arrays, strings with
  the one-letter escapes, integers and the three literals, and fails on any other text
  (fractions, exponents and \<open>\u\<close> escapes are outside it).  The first argument bounds the
  nesting and the number of items; \<open>json_parse\<close> gives it twice the length of the text.
\<close>

definition json_ws :: "char \<Rightarrow> bool" where
  "json_ws c = (c = CHR '' '' \<or> c = CHR 0x09 \<or> c = CHR 0x0A \<or> c = CHR 0x0D)"

definition skip_ws :: "string \<Rightarrow> string" where
  "skip_ws s = dropWhile json_ws s"

definition unescape :: "char \<Rightarrow> char option" where
  "unescape c =
     (if c = CHR 0x22 then Some (CHR 0x22)
      else if c = CHR 0x5C then Some (CHR 0x5C)
      else if c = CHR ''/'' then Some (CHR ''/'')
      else if c = CHR ''b'' then Some (CHR 0x08)
      else if c = CHR ''f'' then Some (CHR 0x0C)
      else if c = CHR ''n'' then Some (CHR 0x0A)
      else if c = CHR ''r'' then Some (CHR 0x0D)
      else if c = CHR ''t'' then Some (CHR 0x09)
      else None)"

text \<open>The text after an opening quote: the string's characters, and what follows the
  closing quote.\<close>

fun read_string :: "string \<Rightarrow> (string \<times> string) option" where
  "read_string [] = None"
| "read_string [c] = (if c = CHR 0x22 then Some ([], []) else None)"
| "read_string (c # d # cs) =
     (if c = CHR 0x22 then Some ([], d # cs)
      else if c = CHR 0x5C then
        (case unescape d of
           None \<Rightarrow> None
         | Some x \<Rightarrow> (case read_string cs of None \<Rightarrow> None | Some (s, r) \<Rightarrow> Some (x # s, r)))
      else if of_char c < (32 :: nat) then None
      else (case read_string (d # cs) of None \<Rightarrow> None | Some (s, r) \<Rightarrow> Some (c # s, r)))"

definition is_digit :: "char \<Rightarrow> bool" where
  "is_digit c = (48 \<le> (of_char c :: nat) \<and> (of_char c :: nat) \<le> 57)"

definition digits_value :: "string \<Rightarrow> int" where
  "digits_value ds = foldl (\<lambda>a c. 10 * a + (int (of_char c) - 48)) 0 ds"

text \<open>An integer: digits without a leading zero, not followed by a fraction or exponent.\<close>

definition read_digits :: "string \<Rightarrow> (int \<times> string) option" where
  "read_digits s =
     (let ds = takeWhile is_digit s; r = dropWhile is_digit s in
      if ds = [] \<or> (length ds > 1 \<and> hd ds = CHR ''0'') then None
      else if r \<noteq> [] \<and> (hd r = CHR ''.'' \<or> hd r = CHR ''e'' \<or> hd r = CHR ''E'') then None
      else Some (digits_value ds, r))"

definition read_number :: "string \<Rightarrow> (jsval \<times> string) option" where
  "read_number s =
     (case s of
        [] \<Rightarrow> None
      | c # cs \<Rightarrow>
          if c = CHR ''-''
          then (case read_digits cs of None \<Rightarrow> None | Some (n, r) \<Rightarrow> Some (JNum (- n), r))
          else (case read_digits s of None \<Rightarrow> None | Some (n, r) \<Rightarrow> Some (JNum n, r)))"

text \<open>A key written twice keeps its first place and its last value.\<close>

fun obj_put :: "string \<Rightarrow> jsval \<Rightarrow> (string \<times> jsval) list \<Rightarrow> (string \<times> jsval) list" where
  "obj_put k v [] = [(k, v)]"
| "obj_put k v ((k', v') # kvs) = (if k = k' then (k, v) # kvs else (k', v') # obj_put k v kvs)"

definition obj_of :: "(string \<times> jsval) list \<Rightarrow> jsval" where
  "obj_of kvs = JObj (foldl (\<lambda>acc kv. obj_put (fst kv) (snd kv) acc) [] kvs)"

fun read_value :: "nat \<Rightarrow> string \<Rightarrow> (jsval \<times> string) option"
  and read_elements :: "nat \<Rightarrow> string \<Rightarrow> (jsval list \<times> string) option"
  and read_members :: "nat \<Rightarrow> string \<Rightarrow> ((string \<times> jsval) list \<times> string) option" where
  "read_value 0 s = None"
| "read_value (Suc n) s =
     (case skip_ws s of
        [] \<Rightarrow> None
      | c # cs \<Rightarrow>
          if c = CHR ''{'' then
            (case skip_ws cs of
               [] \<Rightarrow> None
             | d # ds \<Rightarrow>
                 if d = CHR ''}'' then Some (JObj [], ds)
                 else (case read_members n cs of
                         None \<Rightarrow> None
                       | Some (kvs, r) \<Rightarrow> Some (obj_of kvs, r)))
          else if c = CHR ''['' then
            (case skip_ws cs of
               [] \<Rightarrow> None
             | d # ds \<Rightarrow>
                 if d = CHR '']'' then Some (JArr [], ds)
                 else (case read_elements n cs of
                         None \<Rightarrow> None
                       | Some (vs, r) \<Rightarrow> Some (JArr vs, r)))
          else if c = CHR 0x22 then
            (case read_string cs of None \<Rightarrow> None | Some (str, r) \<Rightarrow> Some (JStr str, r))
          else if take 4 (c # cs) = ''true'' then Some (JBool True, drop 4 (c # cs))
          else if take 5 (c # cs) = ''false'' then Some (JBool False, drop 5 (c # cs))
          else if take 4 (c # cs) = ''null'' then Some (JNull, drop 4 (c # cs))
          else read_number (c # cs))"
| "read_elements 0 s = None"
| "read_elements (Suc n) s =
     (case read_value n s of
        None \<Rightarrow> None
      | Some (v, r) \<Rightarrow>
          (case skip_ws r of
             [] \<Rightarrow> None
           | c # cs \<Rightarrow>
               if c = CHR '','' then
                 (case read_elements n cs of None \<Rightarrow> None | Some (vs, r') \<Rightarrow> Some (v # vs, r'))
               else if c = CHR '']'' then Some ([v], cs)
               else None))"
| "read_members 0 s = None"
| "read_members (Suc n) s =
     (case skip_ws s of
        [] \<Rightarrow> None
      | q # qs \<Rightarrow>
          if q \<noteq> CHR 0x22 then None
          else
            (case read_string qs of
               None \<Rightarrow> None
             | Some (k, r) \<Rightarrow>
                 (case skip_ws r of
                    [] \<Rightarrow> None
                  | c # cs \<Rightarrow>
                      if c \<noteq> CHR '':'' then None
                      else
                        (case read_value n cs of
                           None \<Rightarrow> None
                         | Some (v, r1) \<Rightarrow>
                             (case skip_ws r1 of
                                [] \<Rightarrow> None
                              | d # ds \<Rightarrow>
                                  if d = CHR '','' then
                                    (case read_members n ds of
                                       None \<Rightarrow> None
                                     | Some (kvs, r2) \<Rightarrow> Some ((k, v) # kvs, r2))
                                  else if d = CHR ''}'' then Some ([(k, v)], ds)
                                  else None)))))"

definition json_parse :: "string \<Rightarrow> jsval option" where
  "json_parse s =
     (case read_value (2 * length s + 2) s of
        None \<Rightarrow> None
      | Some (v, r) \<Rightarrow> if skip_ws r = [] then Some v else None)"

section \<open>A printer for JSON text\<close>

text \<open>
  \<open>JSON.stringify\<close> for the examples: no spaces, the properties in their order, a property
  that is \<open>undefined\<close> left out, an element that is \<open>undefined\<close> printed \<open>null\<close>, and in
  strings the escapes of the standard.
\<close>

definition hex_digit :: "nat \<Rightarrow> char" where
  "hex_digit n = char_of (if n < 10 then 48 + n else 87 + n)"

definition escape :: "char \<Rightarrow> string" where
  "escape c =
     (if c = CHR 0x22 then [CHR 0x5C, CHR 0x22]
      else if c = CHR 0x5C then [CHR 0x5C, CHR 0x5C]
      else if c = CHR 0x08 then [CHR 0x5C, CHR ''b'']
      else if c = CHR 0x0C then [CHR 0x5C, CHR ''f'']
      else if c = CHR 0x0A then [CHR 0x5C, CHR ''n'']
      else if c = CHR 0x0D then [CHR 0x5C, CHR ''r'']
      else if c = CHR 0x09 then [CHR 0x5C, CHR ''t'']
      else if of_char c < (32 :: nat)
      then [CHR 0x5C, CHR ''u'', CHR ''0'', CHR ''0'',
            hex_digit (of_char c div 16), hex_digit (of_char c mod 16)]
      else [c])"

definition quoted :: "string \<Rightarrow> string" where
  "quoted s = CHR 0x22 # concat (map escape s) @ [CHR 0x22]"

fun json_text :: "jsval \<Rightarrow> string"
  and elements_text :: "jsval list \<Rightarrow> string list"
  and members_text :: "(string \<times> jsval) list \<Rightarrow> string list" where
  "json_text JUndefined = ''null''"
| "json_text JNull = ''null''"
| "json_text (JBool b) = (if b then ''true'' else ''false'')"
| "json_text (JNum n) = show_int n"
| "json_text (JStr s) = quoted s"
| "json_text (JArr xs) = ''['' @ join '','' (elements_text xs) @ '']''"
| "json_text (JObj kvs) = ''{'' @ join '','' (members_text kvs) @ ''}''"
| "elements_text [] = []"
| "elements_text (x # xs) = json_text x # elements_text xs"
| "members_text [] = []"
| "members_text ((k, v) # kvs) =
     (if v = JUndefined then members_text kvs
      else (quoted k @ '':'' @ json_text v) # members_text kvs)"

definition json_stringify :: "jsval \<Rightarrow> jsval" where
  "json_stringify v = (if v = JUndefined then JUndefined else JStr (json_text v))"

section \<open>Strings as the parsers use them\<close>

text \<open>
  Text is a list of characters; the model's whitespace and word characters are the ASCII
  ones.  \<open>s.indexOf(pat)\<close> is \<open>None\<close> for \<open>-1\<close>.
\<close>

fun index_of :: "string \<Rightarrow> string \<Rightarrow> nat option" where
  "index_of pat [] = (if pat = [] then Some 0 else None)"
| "index_of pat (c # cs) =
     (if take (length pat) (c # cs) = pat then Some 0
      else (case index_of pat cs of None \<Rightarrow> None | Some i \<Rightarrow> Some (Suc i)))"

text \<open>\<open>s.substring(a, b)\<close>: both ends are cut to the length, and swapped when out of order.\<close>

definition substring :: "string \<Rightarrow> nat \<Rightarrow> nat \<Rightarrow> string" where
  "substring s a b =
     (let a' = min a (length s); b' = min b (length s)
      in take (max a' b' - min a' b') (drop (min a' b') s))"

definition is_space :: "char \<Rightarrow> bool" where
  "is_space c = (c = CHR '' '' \<or> c = CHR 0x09 \<or> c = CHR 0x0A \<or> c = CHR 0x0B
                 \<or> c = CHR 0x0C \<or> c = CHR 0x0D)"

definition trim :: "string \<Rightarrow> string" where
  "trim s = rev (dropWhile is_space (rev (dropWhile is_space s)))"

text \<open>The class \<open>\w\<close>.\<close>

definition word_char :: "char \<Rightarrow> bool" where
  "word_char c =
     (let n = (of_char c :: nat)
      in (48 \<le> n \<and> n \<le> 57) \<or> (65 \<le> n \<and> n \<le> 90) \<or> (97 \<le> n \<and> n \<le> 122) \<or> n = 95)"

definition lower_char :: "char \<Rightarrow> char" where
  "lower_char c = (let n = (of_char c :: nat) in if 65 \<le> n \<and> n \<le> 90 then char_of (n + 32) else c)"

definition toLowerCase :: "string \<Rightarrow> string" where
  "toLowerCase s = map lower_char s"

text \<open>\<open>s.split('\n')\<close>\<close>

fun split_lines :: "string \<Rightarrow> string list" where
  "split_lines [] = [[]]"
| "split_lines (c # cs) =
     (if c = CHR 0x0A then [] # split_lines cs
      else (case split_lines cs of [] \<Rightarrow> [[c]] | l # ls \<Rightarrow> (c # l) # ls))"

text \<open>
  The match of \<open>/^(\w+)?\n?/\<close> at the start of a text.  It always matches: group 1 is the
  longest run of word characters (missing when the run is empty, and then read as the
  empty string by \<open>match[1] || ''\<close>), and the whole match takes one newline after it if
  there is one.
\<close>

definition match_language :: "string \<Rightarrow> string" where
  "match_language s = takeWhile word_char s"

definition match_length :: "string \<Rightarrow> nat" where
  "match_length s =
     length (takeWhile word_char s)
       + (case dropWhile word_char s of [] \<Rightarrow> 0 | c # cs \<Rightarrow> if c = CHR 0x0A then 1 else 0)"

section \<open>The Assembler on free text: \<open>IncrementalTextParser\<close>\<close>

record text_parser =
  currentCodeBlock :: "nat option"
  currentLanguage :: "string option"
  textBuffer :: string

definition new_text_parser :: text_parser where
  "new_text_parser = \<lparr>currentCodeBlock = None, currentLanguage = None, textBuffer = []\<rparr>"

definition fence :: string where
  "fence = [CHR 0x60, CHR 0x60, CHR 0x60]"

text \<open>\<open>isValidCommand(command)\<close>\<close>

definition isValidCommand :: "jsval \<Rightarrow> bool" where
  "isValidCommand command =
     (case command of
        JObj kvs \<Rightarrow> truthy (get_prop command ''name'') \<and> is_string (get_prop command ''name'')
                    \<and> truthy (get_prop command ''arguments'')
      | _ \<Rightarrow> False)"

text \<open>A line of the line-by-line format: what it adds to the commands.\<close>

definition parse_line :: "platform \<Rightarrow> string \<Rightarrow> jsval list" where
  "parse_line P line =
     (case JSON_parse P (trim line) of
        None \<Rightarrow> []
      | Some item \<Rightarrow> if isValidCommand item then [item] else [])"

text \<open>
  \<open>parseCodeBlock(codeContent, language)\<close>.  A \<open>JSON.parse\<close> that throws in one of the first
  two branches is caught by the outer \<open>try\<close>, with no command collected yet.
\<close>

definition parseCodeBlock :: "platform \<Rightarrow> string \<Rightarrow> string \<Rightarrow> jsval list" where
  "parseCodeBlock P codeContent language =
     (if language \<noteq> ''render'' \<and> language \<noteq> ''json'' \<and> language \<noteq> ''javascript''
         \<and> language \<noteq> ''js''
      then []
      else if take 1 (trim codeContent) = ''[''
      then (case JSON_parse P codeContent of
              Some (JArr items) \<Rightarrow> filter isValidCommand items
            | _ \<Rightarrow> [])
      else if take 1 (trim codeContent) = ''{''
      then (case JSON_parse P codeContent of
              Some data \<Rightarrow> if isValidCommand data then [data] else []
            | None \<Rightarrow> [])
      else concat (map (parse_line P) (filter (\<lambda>line. trim line \<noteq> []) (split_lines codeContent))))"

lemma index_of_bound: "index_of pat s = Some i \<Longrightarrow> i + length pat \<le> length s"
proof (induction s arbitrary: i)
  case Nil
  then show ?case by (simp split: if_splits)
next
  case (Cons c cs)
  show ?case
  proof (cases "take (length pat) (c # cs) = pat")
    case True
    from arg_cong [OF True, of length] have "min (length pat) (length (c # cs)) = length pat"
      by simp
    then have "length pat \<le> length (c # cs)"
      by (simp add: min_def split: if_splits)
    with True Cons.prems show ?thesis by simp
  next
    case False
    with Cons.prems obtain j where j: "index_of pat cs = Some j" "i = Suc j"
      by (auto split: option.splits)
    from Cons.IH [OF j(1)] j(2) show ?thesis by simp
  qed
qed

text \<open>
  The loop of \<open>parseTextChunk\<close>, from the buffer as it stands: the commands of the
  complete blocks, in order, and the parser when the loop ends.  Every round without a
  \<open>break\<close> cuts a whole block out of the buffer, and searches again from its start.
\<close>

function scan_blocks :: "platform \<Rightarrow> text_parser \<Rightarrow> jsval list \<times> text_parser" where
  "scan_blocks P st =
     (case index_of fence (textBuffer st) of
        None \<Rightarrow> ([], st)
      | Some codeBlockStart \<Rightarrow>
          let afterStart = drop (codeBlockStart + 3) (textBuffer st) in
          (case index_of fence afterStart of
             None \<Rightarrow>
               ([], if currentCodeBlock st = None \<or> currentCodeBlock st \<noteq> Some codeBlockStart
                    then st\<lparr>currentCodeBlock := Some codeBlockStart,
                            currentLanguage := Some (toLowerCase (match_language afterStart))\<rparr>
                    else st)
           | Some codeBlockEnd \<Rightarrow>
               let fullCodeBlock = substring (textBuffer st) codeBlockStart
                                     (codeBlockStart + 3 + codeBlockEnd + 3);
                   language = toLowerCase (match_language (drop 3 fullCodeBlock));
                   codeStart = 3 + match_length (drop 3 fullCodeBlock);
                   codeContent = trim (substring fullCodeBlock codeStart (length fullCodeBlock - 3));
                   commands = parseCodeBlock P codeContent language;
                   st1 = st\<lparr>textBuffer := substring (textBuffer st) 0 codeBlockStart
                                   @ drop (codeBlockStart + 3 + codeBlockEnd + 3) (textBuffer st),
                            currentCodeBlock := None, currentLanguage := None\<rparr>
               in (case scan_blocks P st1 of (later, st2) \<Rightarrow> (commands @ later, st2))))"
  by pat_completeness auto
termination
proof (relation "measure (\<lambda>(P, st). length (textBuffer st))")
  show "wf (measure (\<lambda>(P, st). length (textBuffer st)))" by simp
next
  fix P :: platform and st :: text_parser and codeBlockStart afterStart codeBlockEnd
    fullCodeBlock language codeStart codeContent commands st1
  assume a: "index_of fence (textBuffer st) = Some codeBlockStart"
    and b: "afterStart = drop (codeBlockStart + 3) (textBuffer st)"
    and c: "index_of fence afterStart = Some codeBlockEnd"
    and d: "st1 = st\<lparr>textBuffer := substring (textBuffer st) 0 codeBlockStart
                          @ drop (codeBlockStart + 3 + codeBlockEnd + 3) (textBuffer st),
                     currentCodeBlock := None, currentLanguage := None\<rparr>"
  from index_of_bound [OF a] have a': "codeBlockStart + 3 \<le> length (textBuffer st)"
    by (simp add: fence_def)
  from index_of_bound [OF c] b have c': "codeBlockEnd + 3 \<le> length (textBuffer st) - (codeBlockStart + 3)"
    by (simp add: fence_def)
  from a' c' have "length (textBuffer st1) < length (textBuffer st)"
    unfolding d by (simp add: substring_def)
  then show "((P, st1), (P, st)) \<in> measure (\<lambda>(P, st). length (textBuffer st))"
    by simp
qed

declare scan_blocks.simps [simp del]

text \<open>\<open>parseTextChunk(textChunk)\<close>\<close>

definition parseTextChunk :: "platform \<Rightarrow> string \<Rightarrow> text_parser \<Rightarrow> jsval list \<times> text_parser" where
  "parseTextChunk P textChunk st = scan_blocks P (st\<lparr>textBuffer := textBuffer st @ textChunk\<rparr>)"

section \<open>The Assembler on structured deltas: \<open>IncrementalCommandParser\<close>\<close>

text \<open>
  \<open>parseChunk\<close> reads three shapes off a chunk, one after the other.  The streaming
  format carries \<open>choices\<close>; a choice carries the fragments \<open>delta.tool_calls\<close> and, with
  \<open>finish_reason\<close>, the calls of \<open>message.tool_calls\<close>; a fragment is
  \<open>{index, id, function: {name, arguments}}\<close>.  The second shape is a list \<open>tool_calls\<close> of
  whole calls \<open>{id, name, arguments, index}\<close> on the chunk; the third is the chunk being such
  a call itself, with \<open>name\<close>, \<open>arguments\<close>, \<open>id\<close> and \<open>index\<close> of its own.  A part that is
  missing is \<open>undefined\<close>, a list that is missing (or is no array) is empty.
\<close>

record deltaToolCall =
  delta_index :: jsval
  delta_id :: jsval
  function_name :: jsval
  function_arguments :: jsval

record choice =
  delta_tool_calls :: "deltaToolCall list"
  finish_reason :: jsval
  message_tool_calls :: "deltaToolCall list"

text \<open>A buffered, completed or delivered call: \<open>{id, name, arguments, index}\<close>.\<close>

record streamedToolCall = toolCall +
  callId :: jsval
  index :: jsval

record chunk = streamedToolCall +
  choices :: "choice list"
  tool_calls :: "streamedToolCall list"

text \<open>A \<open>Map\<close> as the list of its entries in insertion order.\<close>

fun map_set :: "'k \<Rightarrow> 'v \<Rightarrow> ('k \<times> 'v) list \<Rightarrow> ('k \<times> 'v) list" where
  "map_set k v [] = [(k, v)]"
| "map_set k v ((k', v') # kvs) = (if k = k' then (k, v) # kvs else (k', v') # map_set k v kvs)"

definition map_delete :: "'k \<Rightarrow> ('k \<times> 'v) list \<Rightarrow> ('k \<times> 'v) list" where
  "map_delete k kvs = filter (\<lambda>kv. fst kv \<noteq> k) kvs"

text \<open>The parser's two collections, and how often it has read the clock.\<close>

record command_parser =
  toolCallBuffer :: "(string \<times> streamedToolCall) list"
  completedToolCalls :: "string list"
  clockReads :: nat


text \<open>The slot key \<open>`index_${toolCallIndex}`\<close>\<close>

definition toolCallKey :: "jsval \<Rightarrow> string" where
  "toolCallKey toolCallIndex = ''index_'' @ to_String toolCallIndex"

text \<open>
  One round of the loop over \<open>choice.delta.tool_calls\<close>: the calls completed so far and
  the parser, before and after the fragment.  The buffered call is changed in place.
\<close>

definition delta_step ::
  "platform \<Rightarrow> deltaToolCall \<Rightarrow> streamedToolCall list \<times> command_parser
     \<Rightarrow> streamedToolCall list \<times> command_parser" where
  "delta_step P deltaToolCall acc =
     (case acc of (completed, st) \<Rightarrow>
      let toolCallIndex = delta_index deltaToolCall;
          key = toolCallKey toolCallIndex
      in if key \<in> set (completedToolCalls st) then (completed, st)
         else
           let toolCall0 =
                 (case map_of (toolCallBuffer st) key of
                    None \<Rightarrow> \<lparr>name = JStr [], arguments = JStr [],
                              callId = js_or (delta_id deltaToolCall) JUndefined,
                              index = toolCallIndex\<rparr>
                  | Some buffered \<Rightarrow> buffered);
               toolCall1 = (if truthy (delta_id deltaToolCall) \<and> \<not> truthy (callId toolCall0)
                            then toolCall0\<lparr>callId := delta_id deltaToolCall\<rparr> else toolCall0);
               toolCall2 = (if truthy (function_name deltaToolCall)
                            then toolCall1\<lparr>name := function_name deltaToolCall\<rparr> else toolCall1);
               toolCall3 = (if truthy (function_arguments deltaToolCall)
                            then toolCall2\<lparr>arguments := JStr (to_String (arguments toolCall2)
                                   @ to_String (function_arguments deltaToolCall))\<rparr>
                            else toolCall2);
               st1 = st\<lparr>toolCallBuffer := map_set key toolCall3 (toolCallBuffer st)\<rparr>
           in if truthy (name toolCall3) \<and> truthy (arguments toolCall3)
                 \<and> trim (to_String (arguments toolCall3)) \<noteq> []
              then (case JSON_parse P (to_String (arguments toolCall3)) of
                      None \<Rightarrow> (completed, st1)
                    | Some parsedArgs \<Rightarrow>
                        (completed @
                           [\<lparr>name = name toolCall3, arguments = arguments toolCall3,
                             callId = js_or (callId toolCall3)
                                        (JStr (''temp_'' @ to_String toolCallIndex)),
                             index = index toolCall3\<rparr>],
                         st1\<lparr>completedToolCalls := set_add key (completedToolCalls st1),
                             toolCallBuffer := map_delete key (toolCallBuffer st1)\<rparr>))
              else (completed, st1))"

text \<open>One round of the loop over \<open>choice.message.tool_calls\<close> when the choice finishes.\<close>

definition message_step ::
  "platform \<Rightarrow> deltaToolCall \<Rightarrow> streamedToolCall list \<times> command_parser
     \<Rightarrow> streamedToolCall list \<times> command_parser" where
  "message_step P toolCall acc =
     (case acc of (completed, st) \<Rightarrow>
      let key = toolCallKey (delta_index toolCall)
      in if key \<in> set (completedToolCalls st) then (completed, st)
         else if truthy (function_name toolCall) \<and> truthy (function_arguments toolCall)
         then
           (case JSON_parse P (to_String (function_arguments toolCall)) of
              Some parsedArgs \<Rightarrow>
                (completed @
                   [\<lparr>name = function_name toolCall, arguments = function_arguments toolCall,
                     callId = delta_id toolCall, index = delta_index toolCall\<rparr>],
                 st\<lparr>completedToolCalls := set_add key (completedToolCalls st),
                    toolCallBuffer := map_delete key (toolCallBuffer st)\<rparr>)
            | None \<Rightarrow>
                (case map_of (toolCallBuffer st) key of
                   None \<Rightarrow> (completed, st)
                 | Some bufferedToolCall \<Rightarrow>
                     if truthy (name bufferedToolCall) \<and> truthy (arguments bufferedToolCall)
                     then
                       (case JSON_parse P (to_String (arguments bufferedToolCall)) of
                          None \<Rightarrow> (completed, st)
                        | Some parsedArgs \<Rightarrow>
                            (completed @
                               [\<lparr>name = name bufferedToolCall,
                                 arguments = arguments bufferedToolCall,
                                 callId = js_or (callId bufferedToolCall)
                                            (js_or (delta_id toolCall)
                                               (JStr (''temp_'' @ to_String (delta_index toolCall)))),
                                 index = index bufferedToolCall\<rparr>],
                             st\<lparr>completedToolCalls := set_add key (completedToolCalls st),
                                toolCallBuffer := map_delete key (toolCallBuffer st)\<rparr>))
                     else (completed, st)))
         else (completed, st))"

definition choice_step ::
  "platform \<Rightarrow> choice \<Rightarrow> streamedToolCall list \<times> command_parser
     \<Rightarrow> streamedToolCall list \<times> command_parser" where
  "choice_step P choice acc =
     (let acc1 = fold (delta_step P) (delta_tool_calls choice) acc
      in if finish_reason choice = JStr ''tool_calls''
         then fold (message_step P) (message_tool_calls choice) acc1
         else acc1)"

text \<open>
  A whole call, delivered in \<open>chunk.tool_calls\<close> or as the chunk itself (the source has the
  same lines for both).  With a name and arguments, and arguments that are no string or
  parse as JSON, it is pushed: under its \<open>id\<close>, or one made from the clock, with
  \<open>index || 0\<close>, and with arguments that are no string printed by \<open>JSON.stringify\<close>.
  \<open>completedToolCalls\<close> is neither tested nor changed here.
\<close>

definition whole_call_step ::
  "platform \<Rightarrow> 'a streamedToolCall_scheme \<Rightarrow> streamedToolCall list \<times> command_parser
     \<Rightarrow> streamedToolCall list \<times> command_parser" where
  "whole_call_step P toolCall acc =
     (case acc of (completed, st) \<Rightarrow>
      if truthy (name toolCall) \<and> truthy (arguments toolCall)
      then
        (case (if is_string (arguments toolCall)
               then JSON_parse P (to_String (arguments toolCall))
               else Some (arguments toolCall)) of
           None \<Rightarrow> (completed, st)
         | Some parsedArgs \<Rightarrow>
             (completed @
                [\<lparr>name = name toolCall,
                  arguments = (if is_string (arguments toolCall) then arguments toolCall
                               else JSON_stringify P (arguments toolCall)),
                  callId = (if truthy (callId toolCall) then callId toolCall
                            else JStr (''temp_'' @ show_int (Date_now P (clockReads st)))),
                  index = js_or (index toolCall) (JNum 0)\<rparr>],
              if truthy (callId toolCall) then st
              else st\<lparr>clockReads := Suc (clockReads st)\<rparr>))
      else (completed, st))"

text \<open>\<open>parseChunk(chunk)\<close>: the calls completed by the chunk, and the parser after it.\<close>

definition parseChunk ::
  "platform \<Rightarrow> chunk \<Rightarrow> command_parser \<Rightarrow> streamedToolCall list \<times> command_parser" where
  "parseChunk P chunk st =
     whole_call_step P chunk
       (fold (whole_call_step P) (tool_calls chunk)
          (fold (choice_step P) (choices chunk) ([], st)))"

text \<open>Feeding the chunks of a stream one after the other: everything \<open>parseChunk\<close>
  returned, in order.\<close>

fun parseChunks ::
  "platform \<Rightarrow> chunk list \<Rightarrow> command_parser \<Rightarrow> streamedToolCall list \<times> command_parser" where
  "parseChunks P [] st = ([], st)"
| "parseChunks P (chunk # chunks) st =
     (case parseChunk P chunk st of
        (completed, st1) \<Rightarrow>
          (case parseChunks P chunks st1 of (later, st2) \<Rightarrow> (completed @ later, st2)))"

section \<open>A platform to run the examples on\<close>

text \<open>
  The examples run on this JSON reader, on a DOM that takes an ASCII letter followed by
  word characters and hyphens as a tag name and stores the remaining properties of
  \<open>setProps\<close> as attributes without throwing, with the ids \<open>element_0\<close>, \<open>element_1\<close>, ... for
  \<open>generateId()\<close>, with a tool table that inherits \<open>toString\<close> (which prints
  \<open>undefined\<close> as the receiver), \<open>constructor\<close> and \<open>__proto__\<close> (which is not a function),
  with the JSON printer above, and with a clock that starts at 1700000000000 and moves
  one millisecond with every reading.
\<close>

definition is_alpha :: "char \<Rightarrow> bool" where
  "is_alpha c = (word_char c \<and> \<not> is_digit c \<and> c \<noteq> CHR ''_'')"

definition example_tag_ok :: "string \<Rightarrow> bool" where
  "example_tag_ok t =
     (case t of [] \<Rightarrow> False | c # cs \<Rightarrow> is_alpha c \<and> list_all (\<lambda>d. word_char d \<or> d = CHR ''-'') cs)"

definition example_inherited :: "string \<Rightarrow> (jsval list \<Rightarrow> js_error + jsval) option" where
  "example_inherited key =
     (if key = ''toString'' then Some (\<lambda>argv. Inr (JStr ''[object Undefined]''))
      else if key = ''constructor''
      then Some (\<lambda>argv. Inr (if arg argv 0 = JUndefined \<or> arg argv 0 = JNull then JObj [] else arg argv 0))
      else if key = ''__proto__'' then Some (\<lambda>argv. Inl (TypeError ''toolFn is not a function''))
      else None)"

definition example_platform :: platform where
  "example_platform =
     \<lparr>JSON_parse = json_parse,
      tag_ok = example_tag_ok,
      set_rest = (\<lambda>restProps node0. (node0\<lparr>attributes := attributes node0 @ restProps\<rparr>, None)),
      generated = (\<lambda>k. ''element_'' @ digits k),
      inherited = example_inherited,
      JSON_stringify = json_stringify,
      Date_now = (\<lambda>k. 1700000000000 + int k)\<rparr>"

text \<open>\<open>new DOMManager(rootElement)\<close>\<close>

definition new_manager :: dom_manager where
  "new_manager = \<lparr>elements = Map.empty, idCalls = 0\<rparr>"

text \<open>Stores for the examples: one empty paragraph \<open>a\<close>; one paragraph \<open>a\<close> that
  reads \<open>Hi\<close>.\<close>

definition one_paragraph :: dom_manager where
  "one_paragraph =
     \<lparr>elements = [JStr ''a'' \<mapsto> \<lparr>node = \<lparr>tagName = ''p'', textContent = [], attributes = []\<rparr>,
                                   parentId = root, children = []\<rparr>],
      idCalls = 0\<rparr>"

definition greeting :: dom_manager where
  "greeting =
     \<lparr>elements = [JStr ''a'' \<mapsto> \<lparr>node = \<lparr>tagName = ''p'', textContent = ''Hi'', attributes = []\<rparr>,
                                   parentId = root, children = []\<rparr>],
      idCalls = 0\<rparr>"

text \<open>A creation instruction whose \<open>props.id\<close> is the number 5, as JSON text, and the
  store it leaves.\<close>

definition create_numbered :: toolCall where
  "create_numbered =
     \<lparr>name = JStr ''h'',
      arguments = JStr ''{\"parentId\":null,\"tagName\":\"p\",\"props\":{\"id\":5}}''\<rparr>"

definition numbered :: dom_manager where
  "numbered = snd (executeToolCall example_platform 1 create_numbered new_manager)"

text \<open>The batch \<open>[valid, malformed, valid]\<close>: a paragraph is created, an instruction with
  a broken string of arguments fails, and the paragraph gets its text.\<close>

definition valid_malformed_valid :: "toolCall list" where
  "valid_malformed_valid =
     [\<lparr>name = JStr ''h'',
       arguments = JStr ''{\"parentId\":null,\"tagName\":\"p\",\"props\":{\"id\":\"a\"}}''\<rparr>,
      \<lparr>name = JStr ''setText'', arguments = JStr ''{elementId''\<rparr>,
      \<lparr>name = JStr ''setText'', arguments = JStr ''{\"elementId\":\"a\",\"text\":\"Hello\"}''\<rparr>]"

text \<open>The entry \<open>executeToolCalls\<close> pushes for an outcome of \<open>executeToolCall\<close>.\<close>

definition envelope :: "js_error + jsval \<Rightarrow> toolCall \<Rightarrow> batch_entry" where
  "envelope r toolCall =
     (case r of Inr v \<Rightarrow> Succeeded v toolCall | Inl e \<Rightarrow> Failed (message e) toolCall)"

text \<open>
  The shape of the store.  \<open>parent_rel\<close> holds \<open>(c, p)\<close> when \<open>c\<close> is live and records \<open>p\<close>
  as its \<open>parentId\<close>; \<open>child_rel\<close> holds \<open>(c, p)\<close> when the live \<open>p\<close> has \<open>c\<close> in its child set.
  A parentId chain from \<open>y\<close> reaches \<open>x\<close> when \<open>(y, x)\<close> is in the transitive closure of
  \<open>parent_rel\<close>.
\<close>

definition parent_rel :: "dom_manager \<Rightarrow> (jsval \<times> jsval) set" where
  "parent_rel m = {(c, p). \<exists>info. elements m c = Some info \<and> parentId info = p}"

definition child_rel :: "dom_manager \<Rightarrow> (jsval \<times> jsval) set" where
  "child_rel m = {(c, p). \<exists>info. elements m p = Some info \<and> c \<in> set (children info)}"


text \<open>I1: every live element's \<open>parentId\<close> is \<open>root\<close> or the id of a live element.\<close>

definition I1 :: "dom_manager \<Rightarrow> bool" where
  "I1 m = (\<forall>c info. elements m c = Some info \<longrightarrow>
             parentId info = root \<or> elements m (parentId info) \<noteq> None)"

text \<open>
  A store is tree-shaped, with ranks that fall from parent to child, when the child sets
  and the \<open>parentId\<close> fields agree (I2), every \<open>parentId\<close> is \<open>root\<close> or live (I1), no element
  is its own ancestor (I4), and no element is called \<open>root\<close>.
\<close>

definition tree_shaped :: "(jsval \<Rightarrow> nat) \<Rightarrow> dom_manager \<Rightarrow> bool" where
  "tree_shaped rank m =
     ((\<forall>p info c. elements m p = Some info \<longrightarrow> c \<in> set (children info) \<longrightarrow>
          rank c < rank p \<and> (\<exists>j. elements m c = Some j \<and> parentId j = p))
      \<and> (\<forall>c j. elements m c = Some j \<longrightarrow> truthy (parentId j))
      \<and> (\<forall>c j. elements m c = Some j \<longrightarrow> parentId j \<noteq> root \<longrightarrow>
            (\<exists>info. elements m (parentId j) = Some info \<and> c \<in> set (children info)))
      \<and> elements m root = None)"


text \<open>A store that holds some of the elements of another, each with the node and the
  \<open>parentId\<close> it has there and no child it does not have there.\<close>

definition sub_store :: "dom_manager \<Rightarrow> dom_manager \<Rightarrow> bool" where
  "sub_store m' m =
     (idCalls m' = idCalls m \<and>
      (\<forall>y i'. elements m' y = Some i' \<longrightarrow>
         (\<exists>i. elements m y = Some i \<and> node i' = node i \<and> parentId i' = parentId i
               \<and> set (children i') \<subseteq> set (children i))))"


text \<open>Stores and instructions for the examples.  \<open>family\<close> is \<open>p\<close> with its child \<open>q\<close> and
  grandchild \<open>r\<close>, beside a paragraph \<open>s\<close>.\<close>

definition element :: "string \<Rightarrow> jsval \<Rightarrow> jsval list \<Rightarrow> elementInfo" where
  "element tag pid kids =
     \<lparr>node = \<lparr>tagName = tag, textContent = [], attributes = []\<rparr>, parentId = pid, children = kids\<rparr>"

definition family :: dom_manager where
  "family =
     \<lparr>elements = [JStr ''p'' \<mapsto> element ''div'' root [JStr ''q''],
                  JStr ''q'' \<mapsto> element ''ul'' (JStr ''p'') [JStr ''r''],
                  JStr ''r'' \<mapsto> element ''li'' (JStr ''q'') [],
                  JStr ''s'' \<mapsto> element ''p'' root []],
      idCalls = 0\<rparr>"

definition family_rank :: "jsval \<Rightarrow> nat" where
  "family_rank k = (if k = JStr ''p'' then 2 else if k = JStr ''q'' then 1 else 0)"

text \<open>A creation instruction with an id of its own, and a renaming update.\<close>

definition create :: "jsval \<Rightarrow> string \<Rightarrow> string \<Rightarrow> toolCall" where
  "create pid tag new =
     \<lparr>name = JStr ''h'',
      arguments = JObj [(''parentId'', pid), (''tagName'', JStr tag),
                        (''props'', JObj [(''id'', JStr new)])]\<rparr>"

definition rename :: "string \<Rightarrow> string \<Rightarrow> toolCall" where
  "rename old new =
     \<lparr>name = JStr ''updateElement'',
      arguments = JObj [(''elementId'', JStr old), (''props'', JObj [(''id'', JStr new)])]\<rparr>"

text \<open>The stores that the Dispatcher builds from a new store: a parent \<open>p\<close> and its child
  \<open>q\<close>; the same after \<open>p\<close> was renamed \<open>p2\<close>; that after a new \<open>p\<close> was created; and an
  element \<open>x\<close> created again under itself.\<close>

definition parent_and_child :: dom_manager where
  "parent_and_child =
     snd (executeToolCalls example_platform 1
            [create JNull ''div'' ''p'', create (JStr ''p'') ''span'' ''q''] new_manager)"

definition after_rename :: dom_manager where
  "after_rename =
     snd (executeToolCalls example_platform 1
            [create JNull ''div'' ''p'', create (JStr ''p'') ''span'' ''q'', rename ''p'' ''p2'']
            new_manager)"

definition after_recreate :: dom_manager where
  "after_recreate =
     snd (executeToolCalls example_platform 1
            [create JNull ''div'' ''p'', create (JStr ''p'') ''span'' ''q'', rename ''p'' ''p2'',
             create JNull ''div'' ''p'']
            new_manager)"

definition own_parent :: dom_manager where
  "own_parent =
     snd (executeToolCalls example_platform 1
            [create JNull ''div'' ''x'', create (JStr ''x'') ''div'' ''x''] new_manager)"

text \<open>
  The slot key of a completed call, by its \<open>index\<close>.  In the buffer every call lies under
  the slot key of its own index (it is put there so, and its index never changes).  A
  step emits once when, from a parser with such a buffer, it appends calls whose slot
  keys are new and differ from each other, and retires exactly those keys.
\<close>

definition slot_of :: "streamedToolCall \<Rightarrow> string" where
  "slot_of completed = toolCallKey (index completed)"

definition buffer_keyed :: "command_parser \<Rightarrow> bool" where
  "buffer_keyed st = (\<forall>k b. (k, b) \<in> set (toolCallBuffer st) \<longrightarrow> toolCallKey (index b) = k)"

definition emits_once ::
  "(streamedToolCall list \<times> command_parser \<Rightarrow> streamedToolCall list \<times> command_parser) \<Rightarrow> bool" where
  "emits_once f =
     (\<forall>acc. buffer_keyed (snd acc) \<longrightarrow>
        buffer_keyed (snd (f acc))
        \<and> (\<exists>new. fst (f acc) = fst acc @ new
               \<and> distinct (map slot_of new)
               \<and> set (map slot_of new) \<inter> set (completedToolCalls (snd acc)) = {}
               \<and> set (completedToolCalls (snd (f acc)))
                   = set (completedToolCalls (snd acc)) \<union> set (map slot_of new)))"






text \<open>A chunk that carries the streaming format only.\<close>

definition streaming_only :: "chunk \<Rightarrow> bool" where
  "streaming_only c = (tool_calls c = [] \<and> \<not> (truthy (name c) \<and> truthy (arguments c)))"

text \<open>The example of the spec: a \<open>render\<close> block whose JSON array is cut after
  \<open>"arguments":{\<close>; the second part ends with a newline before the closing fence.\<close>

definition spec_part1 :: string where
  "spec_part1 = ''[{\"name\":\"create\",\"arguments\":{''"

definition spec_part2 :: string where
  "spec_part2 = ''\"parentId\":null,\"label\":\"div\"}}]'' @ [CHR 0x0A]"

definition spec_command :: jsval where
  "spec_command =
     JObj [(''name'', JStr ''create''),
           (''arguments'', JObj [(''parentId'', JNull), (''label'', JStr ''div'')])]"


section \<open>Properties of the store's text operations\<close>

text \<open>
  Claim C9.  For a live element and all strings \<open>s1\<close> and \<open>s2\<close>, \<open>appendText\<close> with \<open>s1\<close>
  followed by \<open>appendText\<close> with \<open>s2\<close> leaves the store that one \<open>appendText\<close> with
  \<open>s1 @ s2\<close> leaves, and the element then reads its old text followed by \<open>s1\<close> and \<open>s2\<close>.
\<close>

theorem appendText_split:
  assumes "elements m elementId = Some info"
  shows "(case dm_appendText elementId s1 m of (r, m1) \<Rightarrow> dm_appendText elementId s2 m1)
           = dm_appendText elementId (s1 @ s2) m
         \<and> map_option (\<lambda>i. textContent (node i))
             (elements (snd (dm_appendText elementId (s1 @ s2) m)) elementId)
           = Some (textContent (node info) @ s1 @ s2)"
  using assms by (simp add: dm_appendText_def)

theorem appendText_split_witness:
  "elements one_paragraph (JStr ''a'') \<noteq> None
   \<and> (case dm_appendText (JStr ''a'') ''He'' one_paragraph of
         (r, m1) \<Rightarrow> dm_appendText (JStr ''a'') ''llo'' m1)
       = dm_appendText (JStr ''a'') ''Hello'' one_paragraph
   \<and> map_option (\<lambda>i. textContent (node i))
        (elements (snd (dm_appendText (JStr ''a'') ''Hello'' one_paragraph)) (JStr ''a''))
       = Some ''Hello''"
proof -
  have live: "elements one_paragraph (JStr ''a'')
                = Some \<lparr>node = \<lparr>tagName = ''p'', textContent = [], attributes = []\<rparr>,
                        parentId = root, children = []\<rparr>"
    by (simp add: one_paragraph_def)
  from appendText_split [OF live, where ?s1.0 = "''He''" and ?s2.0 = "''llo''"] live
  show ?thesis by simp
qed

text \<open>
  Claim C10, as the code has it.  Through the Dispatcher, a \<open>setText\<close> or \<open>appendText\<close>
  instruction for a live element whose id is a non-empty string and whose arguments have
  no \<open>text\<close>, or a falsy one, succeeds: \<open>setText\<close> leaves the element with the empty text,
  \<open>appendText\<close> leaves the store as it was, and both do what the instruction with
  \<open>text: ""\<close> does.
\<close>

theorem text_defaults_to_empty:
  assumes live: "elements m (JStr i) = Some info" and i: "i \<noteq> []"
    and args: "parse_arguments P args = Inr (JObj kvs)"
    and target: "get_prop (JObj kvs) ''elementId'' = JStr i"
    and falsy: "\<not> truthy (get_prop (JObj kvs) ''text'')"
  shows "executeToolCall P depth \<lparr>name = JStr ''setText'', arguments = args\<rparr> m
           = (Inr (ok_result (JStr i)),
              m\<lparr>elements := (elements m)(JStr i \<mapsto> info\<lparr>node := (node info)\<lparr>textContent := []\<rparr>\<rparr>)\<rparr>)
         \<and> executeToolCall P depth \<lparr>name = JStr ''appendText'', arguments = args\<rparr> m
           = (Inr (ok_result (JStr i)), m)
         \<and> executeToolCall P depth \<lparr>name = JStr ''setText'', arguments = args\<rparr> m
           = executeToolCall P depth \<lparr>name = JStr ''setText'',
               arguments = JObj [(''elementId'', JStr i), (''text'', JStr [])]\<rparr> m
         \<and> executeToolCall P depth \<lparr>name = JStr ''appendText'', arguments = args\<rparr> m
           = executeToolCall P depth \<lparr>name = JStr ''appendText'',
               arguments = JObj [(''elementId'', JStr i), (''text'', JStr [])]\<rparr> m"
proof -
  have same: "(elements m)(JStr i \<mapsto> info) = elements m"
    using live by (simp add: fun_upd_idem)
  have b1: "bound P ''setText''" and b2: "bound P ''appendText''"
    by (simp_all add: bound_def own_tools_def)
  have direct: "parse_arguments P (JObj [(''elementId'', JStr i), (''text'', JStr [])])
                  = Inr (JObj [(''elementId'', JStr i), (''text'', JStr [])])"
    by (simp add: parse_arguments_def js_or_def)
  show ?thesis
    using live i args target falsy same b1 b2 direct
    by (simp add: executeToolCall_def call_tool_def arg_def setText_def appendText_def
        bad_elementId_def js_or_def dm_setText_def dm_appendText_def)
qed

theorem text_defaults_to_empty_witness:
  "elements greeting (JStr ''a'') \<noteq> None
   \<and> parse_arguments example_platform (JStr ''{\"elementId\":\"a\",\"text\":null}'')
        = Inr (JObj [(''elementId'', JStr ''a''), (''text'', JNull)])
   \<and> fst (executeToolCall example_platform 1
         \<lparr>name = JStr ''setText'', arguments = JStr ''{\"elementId\":\"a\",\"text\":null}''\<rparr>
         greeting)
       = Inr (ok_result (JStr ''a''))
   \<and> map_option (\<lambda>i. textContent (node i))
        (elements (snd (executeToolCall example_platform 1
           \<lparr>name = JStr ''setText'', arguments = JStr ''{\"elementId\":\"a\",\"text\":null}''\<rparr>
           greeting)) (JStr ''a''))
       = Some []
   \<and> executeToolCall example_platform 1
         \<lparr>name = JStr ''appendText'', arguments = JStr ''{\"elementId\":\"a\",\"text\":null}''\<rparr>
         greeting
       = (Inr (ok_result (JStr ''a'')), greeting)"
proof -
  have live: "elements greeting (JStr ''a'')
                = Some \<lparr>node = \<lparr>tagName = ''p'', textContent = ''Hi'', attributes = []\<rparr>,
                        parentId = root, children = []\<rparr>"
    by (simp add: greeting_def)
  have parsed: "json_parse ''{\"elementId\":\"a\",\"text\":null}''
                  = Some (JObj [(''elementId'', JStr ''a''), (''text'', JNull)])"
    by code_simp
  have args: "parse_arguments example_platform (JStr ''{\"elementId\":\"a\",\"text\":null}'')
                = Inr (JObj [(''elementId'', JStr ''a''), (''text'', JNull)])"
    by (simp add: parse_arguments_def example_platform_def parsed)
  from text_defaults_to_empty [OF live _ args, where depth = 1] live args
  show ?thesis by simp
qed

text \<open>
  Claim C10 as the spec states it, for every live element id, fails on an id that is no
  string.  \<open>createElement\<close> takes any truthy \<open>props.id\<close> as the key, so the instruction
  \<open>h\<close> with \<open>props: {id: 5}\<close> makes the number 5 live; \<open>setText\<close> and \<open>appendText\<close> test
  \<open>typeof elementId !== 'string'\<close> and throw on it, whatever the text.
\<close>

theorem text_on_numeric_id_is_rejected:
  "fst (executeToolCall example_platform 1 create_numbered new_manager) = Inr (JNum 5)
   \<and> map_option (\<lambda>i. tagName (node i)) (elements numbered (JNum 5)) = Some ''p''
   \<and> fst (executeToolCall example_platform 1
            \<lparr>name = JStr ''setText'', arguments = JStr ''{\"elementId\":5}''\<rparr> numbered)
       = Inl (Error ''elementId must be a non-empty string'')
   \<and> fst (executeToolCall example_platform 1
            \<lparr>name = JStr ''appendText'', arguments = JStr ''{\"elementId\":5,\"text\":null}''\<rparr>
            numbered)
       = Inl (Error ''elementId must be a non-empty string'')"
proof -
  have a: "json_parse ''{\"parentId\":null,\"tagName\":\"p\",\"props\":{\"id\":5}}''
             = Some (JObj [(''parentId'', JNull), (''tagName'', JStr ''p''),
                           (''props'', JObj [(''id'', JNum 5)])])"
    by code_simp
  have b: "json_parse ''{\"elementId\":5}'' = Some (JObj [(''elementId'', JNum 5)])"
    by code_simp
  have c: "json_parse ''{\"elementId\":5,\"text\":null}''
             = Some (JObj [(''elementId'', JNum 5), (''text'', JNull)])"
    by code_simp
  show ?thesis
    by (simp add: numbered_def create_numbered_def a b c executeToolCall_def bound_def
        own_tools_def parse_arguments_def example_platform_def example_tag_ok_def is_alpha_def
        word_char_def is_digit_def call_tool_def arg_def h_def setText_def appendText_def
        elementId_error_def js_or_def root_def dm_createElement_def setProps_def
        new_manager_def bad_elementId_def Let_def set_add_def)
qed

section \<open>Properties of the Dispatcher\<close>

lemma executeToolCalls_Cons:
  "executeToolCalls P depth (c # cs) m =
     (envelope (fst (executeToolCall P depth c m)) c
        # fst (executeToolCalls P depth cs (snd (executeToolCall P depth c m))),
      snd (executeToolCalls P depth cs (snd (executeToolCall P depth c m))))"
  by (simp add: envelope_def split: prod.splits sum.splits)

lemma executeToolCalls_append:
  "executeToolCalls P depth (xs @ ys) m =
     (fst (executeToolCalls P depth xs m)
        @ fst (executeToolCalls P depth ys (snd (executeToolCalls P depth xs m))),
      snd (executeToolCalls P depth ys (snd (executeToolCalls P depth xs m))))"
  by (induction xs arbitrary: m) (simp_all add: executeToolCalls_Cons del: executeToolCalls.simps(2))

lemma executeToolCalls_length:
  "length (fst (executeToolCalls P depth toolCalls m)) = length toolCalls"
  by (induction toolCalls arbitrary: m)
    (simp_all add: executeToolCalls_Cons del: executeToolCalls.simps(2))

lemma executeToolCalls_calls:
  "map entry_call (fst (executeToolCalls P depth toolCalls m)) = toolCalls"
  by (induction toolCalls arbitrary: m)
    (simp_all add: executeToolCalls_Cons envelope_def del: executeToolCalls.simps(2)
      split: sum.splits)

lemma executeToolCalls_nth:
  assumes "i < length toolCalls"
  shows "fst (executeToolCalls P depth toolCalls m) ! i
           = envelope (fst (executeToolCall P depth (toolCalls ! i)
                               (snd (executeToolCalls P depth (take i toolCalls) m))))
                      (toolCalls ! i)
         \<and> snd (executeToolCalls P depth (take (Suc i) toolCalls) m)
           = snd (executeToolCall P depth (toolCalls ! i)
                    (snd (executeToolCalls P depth (take i toolCalls) m)))"
proof -
  have split: "toolCalls = take i toolCalls @ (toolCalls ! i) # drop (Suc i) toolCalls"
    using assms by (simp add: id_take_nth_drop [symmetric])
  have len: "length (fst (executeToolCalls P depth (take i toolCalls) m)) = i"
    using assms by (simp add: executeToolCalls_length)
  have "fst (executeToolCalls P depth
               (take i toolCalls @ (toolCalls ! i) # drop (Suc i) toolCalls) m) ! i
          = envelope (fst (executeToolCall P depth (toolCalls ! i)
                             (snd (executeToolCalls P depth (take i toolCalls) m))))
                     (toolCalls ! i)"
    using len
    by (simp add: executeToolCalls_append executeToolCalls_Cons nth_append
        del: executeToolCalls.simps(2))
  with split have a: "fst (executeToolCalls P depth toolCalls m) ! i
          = envelope (fst (executeToolCall P depth (toolCalls ! i)
                             (snd (executeToolCalls P depth (take i toolCalls) m))))
                     (toolCalls ! i)"
    by simp
  have "take (Suc i) toolCalls = take i toolCalls @ [toolCalls ! i]"
    using assms by (simp add: take_Suc_conv_app_nth)
  then have b: "snd (executeToolCalls P depth (take (Suc i) toolCalls) m)
           = snd (executeToolCall P depth (toolCalls ! i)
                    (snd (executeToolCalls P depth (take i toolCalls) m)))"
    by (simp add: executeToolCalls_append executeToolCalls_Cons del: executeToolCalls.simps(2))
  from a b show ?thesis by simp
qed

text \<open>
  Claim C1, as the code has it.  The result envelope is built by \<open>executeToolCalls\<close>,
  which catches whatever \<open>executeToolCall\<close> threw: for one instruction it returns one
  entry, \<open>{success: true, result}\<close> or \<open>{success: false, error}\<close> with the error's message,
  and the store as \<open>executeToolCall\<close> left it.  \<open>executeToolCall\<close> itself throws
  \<open>Unknown tool\<close> when the name is falsy or the lookup \<open>this.boundTools[name]\<close> finds
  nothing, and \<open>Invalid JSON arguments\<close> when the name passes the lookup and the arguments
  are a string that does not parse.  The lookup finds the five tools and what the table
  object inherits: a name such as \<open>toString\<close> passes it.
\<close>

theorem envelope_is_built_by_the_batch:
  "executeToolCalls P depth [toolCall] m
     = ([envelope (fst (executeToolCall P depth toolCall m)) toolCall],
        snd (executeToolCall P depth toolCall m))
   \<and> (\<not> truthy (name toolCall) \<or> \<not> bound P (to_String (name toolCall))
        \<longrightarrow> executeToolCall P depth toolCall m
              = (Inl (Error (''Unknown tool: '' @ to_String (name toolCall))), m))
   \<and> (truthy (name toolCall) \<and> bound P (to_String (name toolCall))
        \<and> arguments toolCall = JStr s \<and> JSON_parse P s = None
        \<longrightarrow> executeToolCall P depth toolCall m
              = (Inl (Error (''Invalid JSON arguments: '' @ s)), m))"
  by (simp add: executeToolCalls_Cons executeToolCall_def parse_arguments_def
      del: executeToolCalls.simps(2))

theorem envelope_is_built_by_the_batch_witness:
  "\<not> bound example_platform ''bogus''
   \<and> executeToolCalls example_platform 1 [\<lparr>name = JStr ''bogus'', arguments = JObj []\<rparr>] new_manager
       = ([Failed ''Unknown tool: bogus'' \<lparr>name = JStr ''bogus'', arguments = JObj []\<rparr>],
          new_manager)
   \<and> bound example_platform ''setText'' \<and> json_parse ''{elementId'' = None
   \<and> executeToolCalls example_platform 1
         [\<lparr>name = JStr ''setText'', arguments = JStr ''{elementId''\<rparr>] new_manager
       = ([Failed ''Invalid JSON arguments: {elementId''
             \<lparr>name = JStr ''setText'', arguments = JStr ''{elementId''\<rparr>],
          new_manager)"
proof -
  have unknown: "\<not> bound example_platform ''bogus''"
    by (simp add: bound_def own_tools_def example_platform_def example_inherited_def)
  have known: "bound example_platform ''setText''"
    by (simp add: bound_def own_tools_def)
  have bad: "json_parse ''{elementId'' = None"
    by code_simp
  then have bad': "JSON_parse example_platform ''{elementId'' = None"
    by (simp add: example_platform_def)
  from envelope_is_built_by_the_batch
         [where P = example_platform and depth = 1 and m = new_manager
            and toolCall = "\<lparr>name = JStr ''bogus'', arguments = JObj []\<rparr>"]
       envelope_is_built_by_the_batch
         [where P = example_platform and depth = 1 and m = new_manager
            and toolCall = "\<lparr>name = JStr ''setText'', arguments = JStr ''{elementId''\<rparr>"
            and s = "''{elementId''"]
       unknown known bad bad'
  show ?thesis by (simp add: envelope_def)
qed

text \<open>
  Claim C1 as the spec states it fails: on an instruction with an unknown name, and on
  one whose string of arguments is not JSON, \<open>executeToolCall\<close> throws.
\<close>

theorem executeToolCall_throws:
  "fst (executeToolCall example_platform 1 \<lparr>name = JStr ''bogus'', arguments = JObj []\<rparr>
          new_manager)
     = Inl (Error ''Unknown tool: bogus'')
   \<and> fst (executeToolCall example_platform 1
            \<lparr>name = JStr ''setText'', arguments = JStr ''{elementId''\<rparr> new_manager)
     = Inl (Error ''Invalid JSON arguments: {elementId'')"
proof -
  have bad: "json_parse ''{elementId'' = None"
    by code_simp
  show ?thesis
    by (simp add: executeToolCall_def bound_def own_tools_def example_platform_def
        example_inherited_def parse_arguments_def bad)
qed

text \<open>
  A name that the tool table inherits is not rejected as unknown: the inherited function
  is called with the arguments object.
\<close>

lemma inherited_name_passes_lookup:
  "bound example_platform ''toString''
   \<and> executeToolCall example_platform 1 \<lparr>name = JStr ''toString'', arguments = JObj []\<rparr>
         new_manager
       = (Inr (JStr ''[object Undefined]''), new_manager)"
  by (simp add: executeToolCall_def bound_def own_tools_def example_platform_def
      example_inherited_def parse_arguments_def call_tool_def js_or_def)

text \<open>
  Claim C7.  \<open>executeToolCalls\<close> returns one entry per instruction, in the order of the
  instructions: the i-th entry is the envelope of what \<open>executeToolCall\<close> did with the
  i-th instruction on the store the instructions before it left, whether they failed or
  not, and the store goes on from there.
\<close>

theorem batch_is_one_to_one:
  "length (fst (executeToolCalls P depth toolCalls m)) = length toolCalls
   \<and> map entry_call (fst (executeToolCalls P depth toolCalls m)) = toolCalls
   \<and> (\<forall>i. i < length toolCalls \<longrightarrow>
          fst (executeToolCalls P depth toolCalls m) ! i
            = envelope (fst (executeToolCall P depth (toolCalls ! i)
                               (snd (executeToolCalls P depth (take i toolCalls) m))))
                       (toolCalls ! i)
          \<and> snd (executeToolCalls P depth (take (Suc i) toolCalls) m)
            = snd (executeToolCall P depth (toolCalls ! i)
                     (snd (executeToolCalls P depth (take i toolCalls) m))))"
  using executeToolCalls_length executeToolCalls_calls executeToolCalls_nth by blast

theorem batch_is_one_to_one_witness:
  "length valid_malformed_valid = 3
   \<and> map success (fst (executeToolCalls example_platform 1 valid_malformed_valid new_manager))
       = [True, False, True]
   \<and> envelope (fst (executeToolCall example_platform 1 (valid_malformed_valid ! 1)
                     (snd (executeToolCalls example_platform 1 (take 1 valid_malformed_valid)
                             new_manager))))
         (valid_malformed_valid ! 1)
       = Failed ''Invalid JSON arguments: {elementId'' (valid_malformed_valid ! 1)
   \<and> elements (snd (executeToolCalls example_platform 1 valid_malformed_valid new_manager))
        (JStr ''a'')
       = Some \<lparr>node = \<lparr>tagName = ''p'', textContent = ''Hello'', attributes = []\<rparr>,
               parentId = root, children = []\<rparr>"
proof -
  have len: "length valid_malformed_valid = 3"
    by (simp add: valid_malformed_valid_def)
  have p1: "json_parse ''{\"parentId\":null,\"tagName\":\"p\",\"props\":{\"id\":\"a\"}}''
      = Some (JObj [(''parentId'', JNull), (''tagName'', JStr ''p''),
                    (''props'', JObj [(''id'', JStr ''a'')])])"
    by code_simp
  have p2: "json_parse ''{elementId'' = None"
    by code_simp
  have p3: "json_parse ''{\"elementId\":\"a\",\"text\":\"Hello\"}''
      = Some (JObj [(''elementId'', JStr ''a''), (''text'', JStr ''Hello'')])"
    by code_simp
  have tag: "example_tag_ok ''p''"
    by (simp add: example_tag_ok_def is_alpha_def word_char_def is_digit_def)
  have run: "executeToolCalls example_platform 1 valid_malformed_valid new_manager
      = ([Succeeded (JStr ''a'') (valid_malformed_valid ! 0),
          Failed ''Invalid JSON arguments: {elementId'' (valid_malformed_valid ! 1),
          Succeeded (ok_result (JStr ''a'')) (valid_malformed_valid ! 2)],
         \<lparr>elements = [JStr ''a'' \<mapsto>
              \<lparr>node = \<lparr>tagName = ''p'', textContent = ''Hello'', attributes = []\<rparr>,
               parentId = root, children = []\<rparr>],
          idCalls = 0\<rparr>)"
    by (simp add: valid_malformed_valid_def executeToolCall_def bound_def own_tools_def
        parse_arguments_def example_platform_def p1 p2 p3 tag call_tool_def arg_def h_def
        js_or_def root_def dm_createElement_def setProps_def new_manager_def setText_def
        bad_elementId_def dm_setText_def Let_def)
  from batch_is_one_to_one
         [where P = example_platform and depth = 1 and m = new_manager
            and toolCalls = valid_malformed_valid]
  have "envelope (fst (executeToolCall example_platform 1 (valid_malformed_valid ! 1)
                (snd (executeToolCalls example_platform 1 (take 1 valid_malformed_valid)
                        new_manager))))
              (valid_malformed_valid ! 1)
          = fst (executeToolCalls example_platform 1 valid_malformed_valid new_manager) ! 1"
    using len by simp
  also have "\<dots> = Failed ''Invalid JSON arguments: {elementId'' (valid_malformed_valid ! 1)"
    unfolding run by simp
  finally have middle:
    "envelope (fst (executeToolCall example_platform 1 (valid_malformed_valid ! 1)
                (snd (executeToolCalls example_platform 1 (take 1 valid_malformed_valid)
                        new_manager))))
              (valid_malformed_valid ! 1)
       = Failed ''Invalid JSON arguments: {elementId'' (valid_malformed_valid ! 1)" .
  have "map success (fst (executeToolCalls example_platform 1 valid_malformed_valid new_manager))
          = [True, False, True]"
    unfolding run by simp
  moreover have "elements (snd (executeToolCalls example_platform 1 valid_malformed_valid
                                  new_manager)) (JStr ''a'')
      = Some \<lparr>node = \<lparr>tagName = ''p'', textContent = ''Hello'', attributes = []\<rparr>,
              parentId = root, children = []\<rparr>"
    unfolding run by simp
  ultimately show ?thesis using len middle by blast
qed

section \<open>Properties of creation\<close>

text \<open>
  Claim C8.  A creation instruction whose \<open>tagName\<close> is empty or not a string is rejected:
  \<open>h\<close> throws before the store is touched, and no label is defaulted.  A name the DOM
  does not accept makes the call throw as well.
\<close>

theorem h_rejects_bad_tagName:
  "(\<not> truthy tagName0 \<or> \<not> is_string tagName0
      \<longrightarrow> h P depth parentId0 tagName0 props0 m
            = (Inl (Error ''tagName must be a non-empty string''), m))
   \<and> (\<not> tag_ok P (to_String tagName0) \<longrightarrow> isl (fst (h P depth parentId0 tagName0 props0 m)))"
  by (auto simp: h_def dm_createElement_def Let_def split: prod.splits sum.splits option.splits)

theorem h_rejects_bad_tagName_witness:
  "executeToolCall example_platform 1
     \<lparr>name = JStr ''h'',
      arguments = JObj [(''parentId'', JStr ''root''), (''tagName'', JStr []), (''props'', JObj [])]\<rparr>
     new_manager
   = (Inl (Error ''tagName must be a non-empty string''), new_manager)"
proof -
  from h_rejects_bad_tagName
         [where ?tagName0.0 = "JStr []" and P = example_platform and depth = 1
            and ?parentId0.0 = "JStr ''root''" and ?props0.0 = "JObj []" and m = new_manager]
  have "h example_platform 1 (JStr ''root'') (JStr []) (JObj []) new_manager
          = (Inl (Error ''tagName must be a non-empty string''), new_manager)"
    by simp
  then show ?thesis
    by (simp add: executeToolCall_def bound_def own_tools_def parse_arguments_def js_or_def
        call_tool_def arg_def)
qed

section \<open>Properties of removal\<close>

lemma sub_store_refl: "sub_store m m"
  by (simp add: sub_store_def)

lemma set_set_delete [simp]: "set (set_delete x xs) = set xs - {x}"
  by (simp add: set_delete_def)

lemma set_set_add [simp]: "set (set_add x xs) = insert x (set xs)"
  by (auto simp: set_add_def)

lemma sub_store_trans:
  assumes "sub_store m2 m1" and "sub_store m1 m"
  shows "sub_store m2 m"
  unfolding sub_store_def
proof (intro conjI allI impI)
  show "idCalls m2 = idCalls m" using assms by (simp add: sub_store_def)
next
  fix y i2
  assume "elements m2 y = Some i2"
  with assms(1) obtain i1 where i1: "elements m1 y = Some i1" "node i2 = node i1"
      "parentId i2 = parentId i1" "set (children i2) \<subseteq> set (children i1)"
    unfolding sub_store_def by blast
  from i1(1) assms(2) obtain i where i: "elements m y = Some i" "node i1 = node i"
      "parentId i1 = parentId i" "set (children i1) \<subseteq> set (children i)"
    unfolding sub_store_def by blast
  from i1 i show "\<exists>i. elements m y = Some i \<and> node i2 = node i \<and> parentId i2 = parentId i
                     \<and> set (children i2) \<subseteq> set (children i)"
    by auto
qed

lemma for_each_invariant:
  assumes "Q m"
    and "\<And>x m r m'. x \<in> set xs \<Longrightarrow> Q m \<Longrightarrow> body x m = (r, m') \<Longrightarrow> Q m'"
  shows "Q (snd (for_each body xs m))"
  using assms
proof (induction xs arbitrary: m)
  case Nil
  then show ?case by simp
next
  case (Cons x xs)
  obtain r m1 where b: "body x m = (r, m1)" by (cases "body x m") auto
  from Cons.prems(2) [OF _ Cons.prems(1) b] have q1: "Q m1" by simp
  show ?case
  proof (cases r)
    case (Inl e)
    with b q1 show ?thesis by simp
  next
    case (Inr u)
    have "Q (snd (for_each body xs m1))"
      by (rule Cons.IH [OF q1]) (use Cons.prems(2) in auto)
    with b Inr show ?thesis by simp
  qed
qed

lemma detach_sub:
  assumes "elements m1 x = Some info"
  shows "sub_store
     (m1\<lparr>elements :=
        ((if truthy pid \<and> pid \<noteq> root
          then (case elements m1 pid of
                  None \<Rightarrow> elements m1
                | Some parentInfo \<Rightarrow> (elements m1)(pid \<mapsto>
                    parentInfo\<lparr>children := set_delete x (children parentInfo)\<rparr>))
          else elements m1))(x := None)\<rparr>) m1"
  unfolding sub_store_def
  by (auto split: option.splits if_splits)

lemma remove_sub: "sub_store (snd (dm_removeElement depth x m)) m"
proof (induction depth arbitrary: x m)
  case 0
  show ?case by (simp add: sub_store_refl)
next
  case (Suc depth)
  show ?case
  proof (cases "elements m x")
    case None
    then show ?thesis by (simp add: sub_store_refl)
  next
    case (Some info)
    obtain r m1 where loop: "for_each (dm_removeElement depth) (children info) m = (r, m1)"
      by (cases "for_each (dm_removeElement depth) (children info) m") auto
    have "sub_store (snd (for_each (dm_removeElement depth) (children info) m)) m"
    proof (rule for_each_invariant [where Q = "\<lambda>m'. sub_store m' m"])
      show "sub_store m m" by (rule sub_store_refl)
    next
      fix c ma r' m'
      assume "sub_store ma m" and "dm_removeElement depth c ma = (r', m')"
      with Suc.IH [of c ma] show "sub_store m' m"
        by (auto intro: sub_store_trans)
    qed
    with loop have s1: "sub_store m1 m" by simp
    show ?thesis
    proof (cases r)
      case (Inl e)
      with Some loop s1 show ?thesis by simp
    next
      case (Inr u)
      show ?thesis
      proof (cases "elements m1 x")
        case None
        have "sub_store (snd (dm_removeElement (Suc depth) x m)) m1"
          using Some loop Inr None unfolding sub_store_def
          by (auto simp: Let_def split: option.splits if_splits)
        then show ?thesis using s1 by (rule sub_store_trans)
      next
        case (Some info1)
        have "sub_store (snd (dm_removeElement (Suc depth) x m)) m1"
          using \<open>elements m x = Some info\<close> loop Inr detach_sub [OF Some, of "parentId info"]
          by (simp add: Let_def)
        then show ?thesis using s1 by (rule sub_store_trans)
      qed
    qed
  qed
qed


lemma sub_storeD:
  "sub_store m' m \<Longrightarrow> elements m' y = Some i' \<Longrightarrow>
     \<exists>i. elements m y = Some i \<and> node i' = node i \<and> parentId i' = parentId i
         \<and> set (children i') \<subseteq> set (children i)"
  unfolding sub_store_def by blast

lemma sub_store_dead: "sub_store m' m \<Longrightarrow> elements m y = None \<Longrightarrow> elements m' y = None"
  using sub_storeD [of m' m y] by (cases "elements m' y") auto

lemma detach_tree_shaped:
  assumes ts: "tree_shaped rank m1"
    and nokids: "\<And>i. elements m1 x = Some i \<Longrightarrow> children i = [] \<and> parentId i = pid"
  shows "tree_shaped rank
     (m1\<lparr>elements :=
        ((if truthy pid \<and> pid \<noteq> root
          then (case elements m1 pid of
                  None \<Rightarrow> elements m1
                | Some parentInfo \<Rightarrow> (elements m1)(pid \<mapsto>
                    parentInfo\<lparr>children := set_delete x (children parentInfo)\<rparr>))
          else elements m1))(x := None)\<rparr>)"
proof -
  define m' where "m' = m1\<lparr>elements :=
        ((if truthy pid \<and> pid \<noteq> root
          then (case elements m1 pid of
                  None \<Rightarrow> elements m1
                | Some parentInfo \<Rightarrow> (elements m1)(pid \<mapsto>
                    parentInfo\<lparr>children := set_delete x (children parentInfo)\<rparr>))
          else elements m1))(x := None)\<rparr>"
  have c1: "\<And>p info c. elements m1 p = Some info \<Longrightarrow> c \<in> set (children info) \<Longrightarrow>
              rank c < rank p \<and> (\<exists>j. elements m1 c = Some j \<and> parentId j = p)"
    and c2: "\<And>c j. elements m1 c = Some j \<Longrightarrow> truthy (parentId j)"
    and c3: "\<And>c j. elements m1 c = Some j \<Longrightarrow> parentId j \<noteq> root \<Longrightarrow>
              (\<exists>info. elements m1 (parentId j) = Some info \<and> c \<in> set (children info))"
    and c4: "elements m1 root = None"
    using ts unfolding tree_shaped_def by blast+
  have live': "\<And>y i'. elements m' y = Some i' \<Longrightarrow>
      y \<noteq> x \<and> (\<exists>i. elements m1 y = Some i \<and> parentId i' = parentId i
                     \<and> set (children i') \<subseteq> set (children i)
                     \<and> (y = pid \<and> truthy pid \<and> pid \<noteq> root \<longrightarrow> x \<notin> set (children i')))"
    unfolding m'_def by (auto split: if_splits option.splits)
  have keep: "\<And>y i. elements m1 y = Some i \<Longrightarrow> y \<noteq> x \<Longrightarrow>
      \<exists>i'. elements m' y = Some i' \<and> parentId i' = parentId i
            \<and> set (children i) - {x} \<subseteq> set (children i')"
    unfolding m'_def by (auto split: if_splits option.splits)
  have g1: "rank c < rank p \<and> (\<exists>j. elements m' c = Some j \<and> parentId j = p)"
    if p: "elements m' p = Some info" and c: "c \<in> set (children info)" for p info c
  proof -
    from live' [OF p] obtain i where px: "p \<noteq> x" and i: "elements m1 p = Some i"
      and kids: "set (children info) \<subseteq> set (children i)"
      and gone: "p = pid \<and> truthy pid \<and> pid \<noteq> root \<longrightarrow> x \<notin> set (children info)"
      by blast
    from c kids have ci: "c \<in> set (children i)" by auto
    from c1 [OF i ci] obtain j where rk: "rank c < rank p"
      and j: "elements m1 c = Some j" "parentId j = p"
      by blast
    have "c \<noteq> x"
    proof
      assume cx: "c = x"
      with j nokids have "p = pid" by auto
      moreover from c2 [OF j(1)] j(2) \<open>p = pid\<close> have "truthy pid" by simp
      moreover from i c4 \<open>p = pid\<close> have "pid \<noteq> root" by auto
      ultimately show False using gone c cx by simp
    qed
    from keep [OF j(1) this] j(2) rk show ?thesis by auto
  qed
  have g2: "truthy (parentId j)" if "elements m' c = Some j" for c j
  proof -
    from live' [OF that] obtain i where "elements m1 c = Some i" "parentId j = parentId i"
      by blast
    with c2 show ?thesis by simp
  qed
  have g3: "\<exists>info. elements m' (parentId j) = Some info \<and> c \<in> set (children info)"
    if cj: "elements m' c = Some j" and nr: "parentId j \<noteq> root" for c j
  proof -
    from live' [OF cj] obtain i where cx: "c \<noteq> x" and i: "elements m1 c = Some i"
      and pi: "parentId j = parentId i" by blast
    from c3 [OF i] nr pi obtain info where pinfo: "elements m1 (parentId i) = Some info"
      and cin: "c \<in> set (children info)" by auto
    have "parentId i \<noteq> x" using nokids pinfo cin by auto
    from keep [OF pinfo this] cin cx pi show ?thesis by auto
  qed
  have g4: "elements m' root = None"
    unfolding m'_def using c4 by (auto split: option.splits)
  have "tree_shaped rank m'"
    unfolding tree_shaped_def using g1 g2 g3 g4 by blast
  then show ?thesis by (simp add: m'_def)
qed

lemma loop_ok:
  assumes IH: "\<And>c m. tree_shaped rank m \<Longrightarrow> rank c < depth \<Longrightarrow>
      \<exists>m'. dm_removeElement depth c m = (Inr (), m') \<and> tree_shaped rank m' \<and> elements m' c = None"
    and "tree_shaped rank m" and "\<forall>c\<in>set cs. rank c < depth"
  shows "\<exists>m1. for_each (dm_removeElement depth) cs m = (Inr (), m1) \<and> tree_shaped rank m1
               \<and> (\<forall>c\<in>set cs. elements m1 c = None) \<and> sub_store m1 m"
  using assms(2,3)
proof (induction cs arbitrary: m)
  case Nil
  then show ?case by (simp add: sub_store_refl)
next
  case (Cons c cs)
  from IH [OF Cons.prems(1), of c] Cons.prems(2) obtain m' where
    m': "dm_removeElement depth c m = (Inr (), m')" "tree_shaped rank m'" "elements m' c = None"
    by auto
  from remove_sub [of depth c m] m'(1) have s': "sub_store m' m" by simp
  from Cons.IH [OF m'(2)] Cons.prems(2) obtain m1 where
    m1: "for_each (dm_removeElement depth) cs m' = (Inr (), m1)" "tree_shaped rank m1"
        "\<forall>c\<in>set cs. elements m1 c = None" "sub_store m1 m'"
    by auto
  from sub_store_dead [OF m1(4) m'(3)] have "elements m1 c = None" .
  with m' m1 s' show ?case
    by (auto intro: sub_store_trans)
qed

lemma remove_ok:
  assumes "tree_shaped rank m" and "rank x < depth"
  shows "\<exists>m'. dm_removeElement depth x m = (Inr (), m') \<and> tree_shaped rank m' \<and> elements m' x = None"
  using assms
proof (induction depth arbitrary: x m)
  case 0
  then show ?case by simp
next
  case (Suc depth)
  show ?case
  proof (cases "elements m x")
    case None
    with Suc.prems show ?thesis by simp
  next
    case (Some info)
    have kids: "\<forall>c\<in>set (children info). rank c < depth"
      using Suc.prems Some unfolding tree_shaped_def by (metis less_Suc_eq_le less_le_trans not_less)
    from loop_ok [of rank depth m "children info", OF Suc.IH Suc.prems(1) kids]
    obtain m1 where m1: "for_each (dm_removeElement depth) (children info) m = (Inr (), m1)"
        "tree_shaped rank m1" "\<forall>c\<in>set (children info). elements m1 c = None" "sub_store m1 m"
      by blast
    have nokids: "\<And>i. elements m1 x = Some i \<Longrightarrow> children i = [] \<and> parentId i = parentId info"
    proof -
      fix i assume i: "elements m1 x = Some i"
      from sub_storeD [OF m1(4) i] Some
      have pi: "parentId i = parentId info" and sub: "set (children i) \<subseteq> set (children info)"
        by auto
      have "set (children i) = {}"
      proof (rule ccontr)
        assume "set (children i) \<noteq> {}"
        then obtain c where c: "c \<in> set (children i)" by (cases "children i") auto
        with m1(2) i have "elements m1 c \<noteq> None" unfolding tree_shaped_def by blast
        moreover from c sub m1(3) have "elements m1 c = None" by auto
        ultimately show False by simp
      qed
      with pi show "children i = [] \<and> parentId i = parentId info" by simp
    qed
    from detach_tree_shaped [OF m1(2) nokids] Some m1(1)
    show ?thesis by (simp add: Let_def)
  qed
qed


lemma child_rel_mono: "sub_store m' m \<Longrightarrow> child_rel m' \<subseteq> child_rel m"
proof
  fix e assume sub: "sub_store m' m" and e: "e \<in> child_rel m'"
  obtain c p where cp: "e = (c, p)" by (cases e)
  with e obtain i' where i': "elements m' p = Some i'" "c \<in> set (children i')"
    unfolding child_rel_def by auto
  from sub_storeD [OF sub i'(1)] i'(2) cp show "e \<in> child_rel m"
    unfolding child_rel_def by auto
qed

lemma remove_frame:
  assumes "elements m y \<noteq> None" and "elements (snd (dm_removeElement depth x m)) y = None"
  shows "(y, x) \<in> (child_rel m)\<^sup>*"
  using assms
proof (induction depth arbitrary: x m y)
  case 0
  then show ?case by simp
next
  case (Suc depth)
  show ?case
  proof (cases "elements m x")
    case None
    with Suc.prems show ?thesis by simp
  next
    case (Some info)
    define Q where "Q m1 \<longleftrightarrow> sub_store m1 m \<and>
        (\<forall>y. elements m y \<noteq> None \<longrightarrow> elements m1 y = None \<longrightarrow>
             (\<exists>c\<in>set (children info). (y, c) \<in> (child_rel m)\<^sup>*))" for m1
    have "Q (snd (for_each (dm_removeElement depth) (children info) m))"
    proof (rule for_each_invariant [where Q = Q])
      show "Q m" by (auto simp: Q_def sub_store_refl)
    next
      fix c ma r m'
      assume c: "c \<in> set (children info)" and q: "Q ma"
        and run: "dm_removeElement depth c ma = (r, m')"
      from q have sub: "sub_store ma m" by (simp add: Q_def)
      from remove_sub [of depth c ma] run have sub': "sub_store m' ma" by simp
      have "\<exists>c\<in>set (children info). (z, c) \<in> (child_rel m)\<^sup>*"
        if z: "elements m z \<noteq> None" "elements m' z = None" for z
      proof (cases "elements ma z")
        case None
        with q z(1) show ?thesis by (simp add: Q_def)
      next
        case (Some a)
        with Suc.IH [of ma z c] run z(2) have "(z, c) \<in> (child_rel ma)\<^sup>*" by simp
        with rtrancl_mono [OF child_rel_mono [OF sub]] have "(z, c) \<in> (child_rel m)\<^sup>*" by blast
        with c show ?thesis by blast
      qed
      with sub sub' show "Q m'" unfolding Q_def by (blast intro: sub_store_trans)
    qed
    then obtain r m1 where loop: "for_each (dm_removeElement depth) (children info) m = (r, m1)"
      and q1: "Q m1"
      by (cases "for_each (dm_removeElement depth) (children info) m") auto
    have step: "(c, x) \<in> child_rel m" if "c \<in> set (children info)" for c
      using that Some unfolding child_rel_def by auto
    have gone1: "(y, x) \<in> (child_rel m)\<^sup>*" if "elements m1 y = None"
    proof -
      from q1 Suc.prems(1) that obtain c where c: "c \<in> set (children info)"
        and yc: "(y, c) \<in> (child_rel m)\<^sup>*" unfolding Q_def by blast
      from yc step [OF c] show ?thesis by (rule rtrancl_into_rtrancl)
    qed
    show ?thesis
    proof (cases r)
      case (Inl e)
      with Some loop Suc.prems(2) gone1 show ?thesis by simp
    next
      case (Inr u)
      show ?thesis
      proof (cases "y = x")
        case True
        then show ?thesis by simp
      next
        case False
        with Some loop Inr Suc.prems(2) have "elements m1 y = None"
          by (auto simp: Let_def split: if_splits option.splits)
        then show ?thesis by (rule gone1)
      qed
    qed
  qed
qed

lemma child_rel_parent_rel: "tree_shaped rank m \<Longrightarrow> child_rel m \<subseteq> parent_rel m"
  unfolding tree_shaped_def child_rel_def parent_rel_def by blast

lemma chain_start_live: "(z, x) \<in> (parent_rel m)\<^sup>+ \<Longrightarrow> elements m z \<noteq> None"
  by (erule converse_tranclE) (auto simp: parent_rel_def)

lemma descendants_gone:
  assumes ts: "tree_shaped rank m'" and sub: "sub_store m' m" and dead: "elements m' x = None"
    and live: "elements m x \<noteq> None" and root: "elements m root = None"
    and chain: "(y, x) \<in> (parent_rel m)\<^sup>+"
  shows "elements m' y = None"
  using chain
proof (induction rule: converse_trancl_induct)
  case (base y)
  show ?case
  proof (rule ccontr)
    assume "elements m' y \<noteq> None"
    then obtain i' where i': "elements m' y = Some i'" by auto
    from sub_storeD [OF sub i'] base have "parentId i' = x"
      unfolding parent_rel_def by auto
    moreover from live root have "x \<noteq> root" by auto
    ultimately have "elements m' x \<noteq> None"
      using ts i' unfolding tree_shaped_def by blast
    with dead show False by simp
  qed
next
  case (step y z)
  show ?case
  proof (rule ccontr)
    assume "elements m' y \<noteq> None"
    then obtain i' where i': "elements m' y = Some i'" by auto
    from sub_storeD [OF sub i'] step(1) have "parentId i' = z"
      unfolding parent_rel_def by auto
    moreover have "elements m z \<noteq> None"
      using step(2) by (rule chain_start_live)
    with root have "z \<noteq> root" by auto
    ultimately have "elements m' z \<noteq> None"
      using ts i' unfolding tree_shaped_def by blast
    with step(3) show False by simp
  qed
qed

lemma no_chain_to_dead:
  assumes ts: "tree_shaped rank m'" and dead: "elements m' x = None" and "x \<noteq> root"
  shows "(y, x) \<notin> (parent_rel m')\<^sup>+"
proof
  assume "(y, x) \<in> (parent_rel m')\<^sup>+"
  then obtain z where "(z, x) \<in> parent_rel m'" by (auto elim: tranclE)
  then obtain i where "elements m' z = Some i" "parentId i = x"
    unfolding parent_rel_def by auto
  with ts \<open>x \<noteq> root\<close> have "elements m' x \<noteq> None" unfolding tree_shaped_def by blast
  with dead show False by simp
qed

lemma family_tree_shaped: "tree_shaped family_rank family"
  unfolding tree_shaped_def family_def family_rank_def element_def root_def
  by (auto split: if_splits)

lemma family_chains:
  "(JStr ''q'', JStr ''p'') \<in> (parent_rel family)\<^sup>+"
  "(JStr ''r'', JStr ''p'') \<in> (parent_rel family)\<^sup>+"
proof -
  have a: "(JStr ''q'', JStr ''p'') \<in> parent_rel family"
    and b: "(JStr ''r'', JStr ''q'') \<in> parent_rel family"
    by (simp_all add: parent_rel_def family_def element_def)
  from a show "(JStr ''q'', JStr ''p'') \<in> (parent_rel family)\<^sup>+" by (rule r_into_trancl)
  from b a show "(JStr ''r'', JStr ''p'') \<in> (parent_rel family)\<^sup>+" by (rule trancl_into_trancl2 [OF _ r_into_trancl])
qed

lemmas run_tools =
  create_def rename_def executeToolCall_def bound_def own_tools_def parse_arguments_def
  example_platform_def example_tag_ok_def is_alpha_def word_char_def is_digit_def
  call_tool_def arg_def h_def updateElement_def js_or_def root_def dm_createElement_def
  dm_updateElement_def setProps_def new_manager_def bad_elementId_def Let_def
  set_add_def set_delete_def element_def

lemma parent_and_child_eq:
  "parent_and_child =
     \<lparr>elements = [JStr ''p'' \<mapsto> element ''div'' root [JStr ''q''],
                  JStr ''q'' \<mapsto> element ''span'' (JStr ''p'') []],
      idCalls = 0\<rparr>"
  unfolding parent_and_child_def by (simp add: run_tools; auto simp: fun_eq_iff)

lemma after_rename_eq:
  "after_rename =
     \<lparr>elements = [JStr ''p2'' \<mapsto> element ''div'' root [JStr ''q''],
                  JStr ''q'' \<mapsto> element ''span'' (JStr ''p'') []],
      idCalls = 0\<rparr>"
  unfolding after_rename_def by (simp add: run_tools; auto simp: fun_eq_iff)

lemma after_recreate_eq:
  "after_recreate =
     \<lparr>elements = [JStr ''p2'' \<mapsto> element ''div'' root [JStr ''q''],
                  JStr ''q'' \<mapsto> element ''span'' (JStr ''p'') [],
                  JStr ''p'' \<mapsto> element ''div'' root []],
      idCalls = 0\<rparr>"
  unfolding after_recreate_def by (simp add: run_tools; auto simp: fun_eq_iff)

lemma own_parent_eq:
  "own_parent =
     \<lparr>elements = [JStr ''x'' \<mapsto> element ''div'' (JStr ''x'') [JStr ''x'']], idCalls = 0\<rparr>"
  unfolding own_parent_def by (simp add: run_tools eval_nat_numeral)

text \<open>
  Claim C4, as the code has it.  \<open>removeElement\<close> on an id that is not live returns and
  leaves the store as it is.  On a live id of a tree-shaped store, with stack for the
  depth of its subtree, it returns, the store stays tree-shaped, the id and every element
  whose parentId chain reached it are gone, no child set lists the id, no parentId chain
  reaches it any more, and every element outside the subtree is still live with its node
  and \<open>parentId\<close>.
\<close>

theorem removeElement_cascades:
  assumes ts: "tree_shaped rank m"
  shows "(elements m x = None \<longrightarrow> dm_removeElement (Suc depth) x m = (Inr (), m))
     \<and> (elements m x \<noteq> None \<longrightarrow> rank x < depth \<longrightarrow>
         (\<exists>m'. dm_removeElement depth x m = (Inr (), m')
            \<and> tree_shaped rank m' \<and> sub_store m' m
            \<and> elements m' x = None
            \<and> (\<forall>y. (y, x) \<in> (parent_rel m)\<^sup>+ \<longrightarrow> elements m' y = None)
            \<and> (\<forall>y. elements m y \<noteq> None \<longrightarrow> (y, x) \<notin> (parent_rel m)\<^sup>* \<longrightarrow> elements m' y \<noteq> None)
            \<and> (\<forall>p info. elements m' p = Some info \<longrightarrow> x \<notin> set (children info))
            \<and> (\<forall>y. (y, x) \<notin> (parent_rel m')\<^sup>+)))"
proof (intro conjI impI)
  assume "elements m x = None"
  then show "dm_removeElement (Suc depth) x m = (Inr (), m)" by simp
next
  assume live: "elements m x \<noteq> None" and depth: "rank x < depth"
  from remove_ok [OF ts depth] obtain m' where
    m': "dm_removeElement depth x m = (Inr (), m')" "tree_shaped rank m'" "elements m' x = None"
    by blast
  from remove_sub [of depth x m] m'(1) have sub: "sub_store m' m" by simp
  from ts have root: "elements m root = None" by (simp add: tree_shaped_def)
  with live have xr: "x \<noteq> root" by auto
  have gone: "\<forall>y. (y, x) \<in> (parent_rel m)\<^sup>+ \<longrightarrow> elements m' y = None"
    using descendants_gone [OF m'(2) sub m'(3) live root] by blast
  have kept: "\<forall>y. elements m y \<noteq> None \<longrightarrow> (y, x) \<notin> (parent_rel m)\<^sup>* \<longrightarrow> elements m' y \<noteq> None"
  proof (intro allI impI)
    fix y assume y: "elements m y \<noteq> None" and far: "(y, x) \<notin> (parent_rel m)\<^sup>*"
    show "elements m' y \<noteq> None"
    proof
      assume "elements m' y = None"
      with remove_frame [OF y, of depth x] m'(1) have "(y, x) \<in> (child_rel m)\<^sup>*" by simp
      with rtrancl_mono [OF child_rel_parent_rel [OF ts]] far show False by blast
    qed
  qed
  have unlisted: "\<forall>p info. elements m' p = Some info \<longrightarrow> x \<notin> set (children info)"
    using m'(2,3) unfolding tree_shaped_def by (metis option.distinct(1))
  have nochain: "\<forall>y. (y, x) \<notin> (parent_rel m')\<^sup>+"
    using no_chain_to_dead [OF m'(2,3) xr] by blast
  from m' sub gone kept unlisted nochain
  show "\<exists>m'. dm_removeElement depth x m = (Inr (), m')
            \<and> tree_shaped rank m' \<and> sub_store m' m
            \<and> elements m' x = None
            \<and> (\<forall>y. (y, x) \<in> (parent_rel m)\<^sup>+ \<longrightarrow> elements m' y = None)
            \<and> (\<forall>y. elements m y \<noteq> None \<longrightarrow> (y, x) \<notin> (parent_rel m)\<^sup>* \<longrightarrow> elements m' y \<noteq> None)
            \<and> (\<forall>p info. elements m' p = Some info \<longrightarrow> x \<notin> set (children info))
            \<and> (\<forall>y. (y, x) \<notin> (parent_rel m')\<^sup>+)"
    by blast
qed

theorem removeElement_cascades_witness:
  "tree_shaped family_rank family
   \<and> elements family (JStr ''p'') \<noteq> None \<and> family_rank (JStr ''p'') < 3
   \<and> fst (dm_removeElement 3 (JStr ''p'') family) = Inr ()
   \<and> elements (snd (dm_removeElement 3 (JStr ''p'') family)) (JStr ''p'') = None
   \<and> elements (snd (dm_removeElement 3 (JStr ''p'') family)) (JStr ''q'') = None
   \<and> elements (snd (dm_removeElement 3 (JStr ''p'') family)) (JStr ''r'') = None
   \<and> elements (snd (dm_removeElement 3 (JStr ''p'') family)) (JStr ''s'')
       = Some (element ''p'' root [])
   \<and> elements family (JStr ''zz'') = None
   \<and> dm_removeElement 1 (JStr ''zz'') family = (Inr (), family)"
proof -
  have live: "elements family (JStr ''p'') \<noteq> None" and dead: "elements family (JStr ''zz'') = None"
    by (simp_all add: family_def)
  have rk: "family_rank (JStr ''p'') < 3" by (simp add: family_rank_def)
  from removeElement_cascades [OF family_tree_shaped, of "JStr ''p''" 3] live rk
  obtain m' where m': "dm_removeElement 3 (JStr ''p'') family = (Inr (), m')"
      "elements m' (JStr ''p'') = None"
      "\<forall>y. (y, JStr ''p'') \<in> (parent_rel family)\<^sup>+ \<longrightarrow> elements m' y = None"
    by blast
  from m'(3) family_chains have qr: "elements m' (JStr ''q'') = None" "elements m' (JStr ''r'') = None"
    by blast+
  have s: "elements (snd (dm_removeElement 3 (JStr ''p'') family)) (JStr ''s'')
       = Some (element ''p'' root [])"
    by (simp add: eval_nat_numeral family_def element_def root_def Let_def)
  from removeElement_cascades [OF family_tree_shaped, of "JStr ''zz''" 0] dead
  have noop: "dm_removeElement 1 (JStr ''zz'') family = (Inr (), family)" by simp
  from family_tree_shaped live dead rk m' qr s noop show ?thesis by simp
qed

text \<open>
  Claim C4 as the spec states it, for every live id, fails on stores the operations
  reach.  After \<open>p\<close> was renamed and a new \<open>p\<close> created, removing \<open>p\<close> returns and leaves
  \<open>q\<close> live with \<open>parentId\<close> \<open>p\<close>.  On an element created under itself the recursion never
  ends: the call throws \<open>RangeError\<close>.
\<close>

theorem removeElement_leaves_stale_child:
  "elements after_recreate (JStr ''p'') \<noteq> None
   \<and> fst (dm_removeElement 3 (JStr ''p'') after_recreate) = Inr ()
   \<and> map_option parentId (elements (snd (dm_removeElement 3 (JStr ''p'') after_recreate)) (JStr ''q''))
       = Some (JStr ''p'')
   \<and> elements own_parent (JStr ''x'') \<noteq> None
   \<and> fst (dm_removeElement 3 (JStr ''x'') own_parent) = Inl stack_overflow"
  unfolding after_recreate_eq own_parent_eq
  by (simp add: eval_nat_numeral element_def root_def Let_def)

section \<open>Properties of id reuse and renaming\<close>

text \<open>
  Claim C3, as the code has it.  In a tree-shaped store, with stack for the depth of the
  subtree, a \<open>createElement\<close> with \<open>props.id\<close> equal to a live id \<open>X\<close>, a tag and properties
  that the DOM accepts and a \<open>parentId\<close> other than \<open>X\<close> first removes \<open>X\<close> and every
  element whose parentId chain reached it, and then installs the new element under \<open>X\<close>
  with an empty child set; it returns \<open>X\<close>.
\<close>

theorem createElement_replaces_occupant:
  assumes ts: "tree_shaped rank m" and live: "elements m X \<noteq> None"
    and given: "get_prop props ''id'' = X" and tr: "truthy X"
    and depth: "rank X < depth" and tag: "tag_ok P tagName0"
    and sp: "setProps P \<lparr>tagName = tagName0, textContent = [], attributes = []\<rparr> props = (node1, None)"
    and other: "parentId0 \<noteq> X"
  shows "\<exists>m1 m'. dm_removeElement depth X m = (Inr (), m1)
           \<and> elements m1 X = None
           \<and> (\<forall>y. (y, X) \<in> (parent_rel m)\<^sup>+ \<longrightarrow> elements m1 y = None)
           \<and> dm_createElement P depth parentId0 tagName0 props m = (Inr X, m')
           \<and> elements m' X = Some \<lparr>node = node1, parentId = js_or parentId0 root, children = []\<rparr>
           \<and> (\<forall>y. y \<noteq> X \<longrightarrow> y \<noteq> parentId0 \<longrightarrow> elements m' y = elements m1 y)
           \<and> (\<forall>y. y \<noteq> X \<longrightarrow> (y, X) \<in> (parent_rel m)\<^sup>+ \<longrightarrow> elements m' y = None)"
proof -
  from remove_ok [OF ts depth] obtain m1 where
    m1: "dm_removeElement depth X m = (Inr (), m1)" "tree_shaped rank m1" "elements m1 X = None"
    by blast
  from remove_sub [of depth X m] m1(1) have sub: "sub_store m1 m" by simp
  from ts have root: "elements m root = None" by (simp add: tree_shaped_def)
  have gone: "\<forall>y. (y, X) \<in> (parent_rel m)\<^sup>+ \<longrightarrow> elements m1 y = None"
    using descendants_gone [OF m1(2) sub m1(3) live root] by blast
  have obj: "props \<noteq> JNull" "props \<noteq> JUndefined"
    using given tr by auto
  define info where "info = \<lparr>node = node1, parentId = js_or parentId0 root, children = []\<rparr>"
  define es1 where "es1 = (elements m1)(X \<mapsto> info)"
  define es2 where "es2 =
     (if truthy parentId0 \<and> parentId0 \<noteq> root
      then (case es1 parentId0 of
              None \<Rightarrow> es1
            | Some parentInfo \<Rightarrow> es1(parentId0 \<mapsto>
                parentInfo\<lparr>children := set_add X (children parentInfo)\<rparr>))
      else es1)"
  have run: "dm_createElement P depth parentId0 tagName0 props m = (Inr X, m1\<lparr>elements := es2\<rparr>)"
    using obj given tr live m1(1) tag sp other
    by (simp add: dm_createElement_def Let_def es2_def es1_def info_def split: option.splits)
  have atX: "es2 X = Some info"
    using other by (auto simp: es2_def es1_def split: option.splits)
  have rest: "\<forall>y. y \<noteq> X \<longrightarrow> y \<noteq> parentId0 \<longrightarrow> es2 y = elements m1 y"
    by (auto simp: es2_def es1_def split: option.splits)
  have still: "\<forall>y. y \<noteq> X \<longrightarrow> elements m1 y = None \<longrightarrow> es2 y = None"
    by (auto simp: es2_def es1_def split: option.splits)
  from gone still have gone': "\<forall>y. y \<noteq> X \<longrightarrow> (y, X) \<in> (parent_rel m)\<^sup>+ \<longrightarrow> es2 y = None"
    by blast
  from m1(1,3) gone run atX rest gone' show ?thesis
    unfolding info_def by auto
qed

theorem createElement_replaces_occupant_witness:
  "tree_shaped family_rank family \<and> elements family (JStr ''p'') \<noteq> None
   \<and> fst (dm_createElement example_platform 3 root ''section'' (JObj [(''id'', JStr ''p'')]) family)
       = Inr (JStr ''p'')
   \<and> elements (snd (dm_createElement example_platform 3 root ''section''
                       (JObj [(''id'', JStr ''p'')]) family)) (JStr ''p'')
       = Some (element ''section'' root [])
   \<and> elements (snd (dm_createElement example_platform 3 root ''section''
                       (JObj [(''id'', JStr ''p'')]) family)) (JStr ''q'') = None
   \<and> elements (snd (dm_createElement example_platform 3 root ''section''
                       (JObj [(''id'', JStr ''p'')]) family)) (JStr ''r'') = None"
proof -
  have live: "elements family (JStr ''p'') \<noteq> None"
    by (simp add: family_def)
  have rk: "family_rank (JStr ''p'') < 3" by (simp add: family_rank_def)
  have tag: "tag_ok example_platform ''section''"
    by (simp add: example_platform_def example_tag_ok_def is_alpha_def word_char_def is_digit_def)
  have sp: "setProps example_platform \<lparr>tagName = ''section'', textContent = [], attributes = []\<rparr>
              (JObj [(''id'', JStr ''p'')])
            = (\<lparr>tagName = ''section'', textContent = [], attributes = []\<rparr>, None)"
    by (simp add: setProps_def example_platform_def)
  have other: "root \<noteq> JStr ''p''" by (simp add: root_def)
  have given: "get_prop (JObj [(''id'', JStr ''p'')]) ''id'' = JStr ''p''" "truthy (JStr ''p'')"
    by simp_all
  from createElement_replaces_occupant
         [OF family_tree_shaped live given rk tag sp other]
  obtain m' where m': "dm_createElement example_platform 3 root ''section''
                          (JObj [(''id'', JStr ''p'')]) family = (Inr (JStr ''p''), m')"
      "elements m' (JStr ''p'')
         = Some \<lparr>node = \<lparr>tagName = ''section'', textContent = [], attributes = []\<rparr>,
                 parentId = js_or root root, children = []\<rparr>"
      "\<forall>y. y \<noteq> JStr ''p'' \<longrightarrow> (y, JStr ''p'') \<in> (parent_rel family)\<^sup>+ \<longrightarrow> elements m' y = None"
    by auto
  from m'(3) family_chains have "elements m' (JStr ''q'') = None" "elements m' (JStr ''r'') = None"
    by auto
  with family_tree_shaped live m'(1,2) show ?thesis
    by (simp add: element_def js_or_def root_def)
qed

text \<open>
  Claim C3 as the spec states it, for every such call, fails when the \<open>parentId\<close> is \<open>X\<close>
  itself (which \<open>h\<close> lets through, \<open>X\<close> being live when it looks): the new element is
  installed with \<open>X\<close> in its own child set.  It fails as well when the DOM refuses the tag
  name: the old occupant is removed first, and then nothing is installed.
\<close>

theorem createElement_under_itself:
  "elements one_paragraph (JStr ''a'') \<noteq> None
   \<and> fst (dm_createElement example_platform 1 (JStr ''a'') ''div'' (JObj [(''id'', JStr ''a'')])
            one_paragraph) = Inr (JStr ''a'')
   \<and> map_option children
        (elements (snd (dm_createElement example_platform 1 (JStr ''a'') ''div''
                          (JObj [(''id'', JStr ''a'')]) one_paragraph)) (JStr ''a''))
       = Some [JStr ''a'']
   \<and> map_option children
        (elements (snd (h example_platform 1 (JStr ''a'') (JStr ''div'')
                          (JObj [(''id'', JStr ''a'')]) one_paragraph)) (JStr ''a''))
       = Some [JStr ''a'']
   \<and> fst (h example_platform 1 root (JStr ''1x'') (JObj [(''id'', JStr ''a'')]) one_paragraph)
       = Inl (DOMException ''The tag name provided is not a valid name'')
   \<and> elements (snd (h example_platform 1 root (JStr ''1x'') (JObj [(''id'', JStr ''a'')])
                       one_paragraph)) (JStr ''a'') = None"
  by (simp add: one_paragraph_def run_tools)

text \<open>
  Claim C2.  An identity rename re-keys the record and the parent's child set and leaves
  the children's records as they are: a child of the renamed element keeps the old id as
  its \<open>parentId\<close>, the old id no longer resolves, and I1 fails in the store.
\<close>

theorem rename_leaves_children_behind:
  assumes p: "elements m p = Some pinfo" and c: "elements m c = Some cinfo"
    and cp: "parentId cinfo = p" and pr: "p \<noteq> root"
    and newId: "get_prop props ''id'' = newId" "truthy newId" "newId \<noteq> p" "c \<noteq> newId"
    and distinct: "c \<noteq> p" "c \<noteq> parentId pinfo"
    and ok: "snd (setProps P (node pinfo) props) = None"
  shows "fst (dm_updateElement P p props m) = Inr ()
       \<and> elements (snd (dm_updateElement P p props m)) p = None
       \<and> elements (snd (dm_updateElement P p props m)) newId \<noteq> None
       \<and> elements (snd (dm_updateElement P p props m)) c = Some cinfo
       \<and> \<not> I1 (snd (dm_updateElement P p props m))"
proof -
  obtain node1 where sp: "setProps P (node pinfo) props = (node1, None)"
    using ok by (cases "setProps P (node pinfo) props") auto
  have a: "fst (dm_updateElement P p props m) = Inr ()"
    and b: "elements (snd (dm_updateElement P p props m)) p = None"
    and n: "elements (snd (dm_updateElement P p props m)) newId \<noteq> None"
    and d: "elements (snd (dm_updateElement P p props m)) c = Some cinfo"
    using p c newId distinct sp
    by (auto simp: dm_updateElement_def Let_def split: option.splits)
  from b d cp pr have "\<not> I1 (snd (dm_updateElement P p props m))"
    unfolding I1_def by auto
  with a b n d show ?thesis by simp
qed

theorem rename_leaves_children_behind_witness:
  "I1 parent_and_child
   \<and> fst (dm_updateElement example_platform (JStr ''p'') (JObj [(''id'', JStr ''p2'')])
            parent_and_child) = Inr ()
   \<and> after_rename
       = snd (dm_updateElement example_platform (JStr ''p'') (JObj [(''id'', JStr ''p2'')])
                parent_and_child)
   \<and> elements after_rename (JStr ''p'') = None
   \<and> map_option parentId (elements after_rename (JStr ''q'')) = Some (JStr ''p'')
   \<and> \<not> I1 after_rename"
proof -
  have before: "I1 parent_and_child"
    unfolding parent_and_child_eq I1_def by (auto simp: element_def root_def split: if_splits)
  have p: "elements parent_and_child (JStr ''p'') = Some (element ''div'' root [JStr ''q''])"
    and q: "elements parent_and_child (JStr ''q'') = Some (element ''span'' (JStr ''p'') [])"
    unfolding parent_and_child_eq by simp_all
  have step: "after_rename
       = snd (dm_updateElement example_platform (JStr ''p'') (JObj [(''id'', JStr ''p2'')])
                parent_and_child)"
    unfolding after_rename_eq parent_and_child_eq
    by (simp add: run_tools; auto simp: fun_eq_iff)
  have ok: "snd (setProps example_platform (node (element ''div'' root [JStr ''q'']))
                   (JObj [(''id'', JStr ''p2'')])) = None"
    by (simp add: setProps_def example_platform_def)
  from rename_leaves_children_behind
         [OF p q _ _ _ _ _ _ _ _ ok, where newId = "JStr ''p2''"]
  have "fst (dm_updateElement example_platform (JStr ''p'') (JObj [(''id'', JStr ''p2'')])
            parent_and_child) = Inr ()
       \<and> elements (snd (dm_updateElement example_platform (JStr ''p'')
                           (JObj [(''id'', JStr ''p2'')]) parent_and_child)) (JStr ''p'') = None
       \<and> elements (snd (dm_updateElement example_platform (JStr ''p'')
                           (JObj [(''id'', JStr ''p2'')]) parent_and_child)) (JStr ''q'')
           = Some (element ''span'' (JStr ''p'') [])
       \<and> \<not> I1 (snd (dm_updateElement example_platform (JStr ''p'')
                        (JObj [(''id'', JStr ''p2'')]) parent_and_child))"
    by (simp add: element_def root_def)
  with before step show ?thesis by (simp add: element_def)
qed

section \<open>Properties of the Assembler on structured deltas\<close>

lemma emits_onceI:
  assumes "\<And>completed st. buffer_keyed st \<Longrightarrow>
      buffer_keyed (snd (f (completed, st)))
      \<and> (\<exists>new. fst (f (completed, st)) = completed @ new
             \<and> distinct (map slot_of new)
             \<and> set (map slot_of new) \<inter> set (completedToolCalls st) = {}
             \<and> set (completedToolCalls (snd (f (completed, st))))
                 = set (completedToolCalls st) \<union> set (map slot_of new))"
  shows "emits_once f"
  unfolding emits_once_def using assms by (metis prod.collapse)

lemma emits_once_id: "emits_once (\<lambda>acc. acc)"
  unfolding emits_once_def by auto

lemma emits_once_comp:
  assumes f: "emits_once f" and g: "emits_once g"
  shows "emits_once (\<lambda>acc. g (f acc))"
  unfolding emits_once_def
proof (intro allI impI)
  fix acc :: "streamedToolCall list \<times> command_parser"
  assume k: "buffer_keyed (snd acc)"
  from f k obtain new1 where f1: "buffer_keyed (snd (f acc))" "fst (f acc) = fst acc @ new1"
      "distinct (map slot_of new1)"
      "set (map slot_of new1) \<inter> set (completedToolCalls (snd acc)) = {}"
      "set (completedToolCalls (snd (f acc))) = set (completedToolCalls (snd acc)) \<union> set (map slot_of new1)"
    unfolding emits_once_def by blast
  from g f1(1) obtain new2 where g1: "buffer_keyed (snd (g (f acc)))"
      "fst (g (f acc)) = fst (f acc) @ new2"
      "distinct (map slot_of new2)"
      "set (map slot_of new2) \<inter> set (completedToolCalls (snd (f acc))) = {}"
      "set (completedToolCalls (snd (g (f acc))))
         = set (completedToolCalls (snd (f acc))) \<union> set (map slot_of new2)"
    unfolding emits_once_def by blast
  have "fst (g (f acc)) = fst acc @ (new1 @ new2)" using f1(2) g1(2) by simp
  moreover have "distinct (map slot_of (new1 @ new2))" using f1(3,5) g1(3,4) by auto
  moreover have "set (map slot_of (new1 @ new2)) \<inter> set (completedToolCalls (snd acc)) = {}"
    using f1(4,5) g1(4) by auto
  moreover have "set (completedToolCalls (snd (g (f acc))))
         = set (completedToolCalls (snd acc)) \<union> set (map slot_of (new1 @ new2))"
    using f1(5) g1(5) by auto
  ultimately show "buffer_keyed (snd (g (f acc)))
        \<and> (\<exists>new. fst (g (f acc)) = fst acc @ new
               \<and> distinct (map slot_of new)
               \<and> set (map slot_of new) \<inter> set (completedToolCalls (snd acc)) = {}
               \<and> set (completedToolCalls (snd (g (f acc))))
                   = set (completedToolCalls (snd acc)) \<union> set (map slot_of new))"
    using g1(1) by blast
qed

lemma emits_once_fold:
  assumes "\<And>x. x \<in> set xs \<Longrightarrow> emits_once (f x)"
  shows "emits_once (fold f xs)"
  using assms
proof (induction xs)
  case Nil
  show ?case using emits_once_id by (simp add: id_def)
next
  case (Cons x xs)
  have "emits_once (\<lambda>acc. fold f xs (f x acc))"
    by (rule emits_once_comp) (use Cons in auto)
  then show ?case by (simp add: comp_def)
qed

lemma set_map_set: "set (map_set k v kvs) \<subseteq> insert (k, v) (set kvs)"
  by (induction kvs) (auto split: if_splits)

lemma set_map_delete: "set (map_delete k kvs) \<subseteq> set kvs"
  by (auto simp: map_delete_def)

lemma buffer_keyed_set:
  "buffer_keyed st \<Longrightarrow> toolCallKey (index v) = k \<Longrightarrow>
     buffer_keyed (st\<lparr>toolCallBuffer := map_set k v (toolCallBuffer st)\<rparr>)"
  unfolding buffer_keyed_def using set_map_set [of k v "toolCallBuffer st"] by auto

lemma buffer_keyed_delete:
  "buffer_keyed st \<Longrightarrow>
     buffer_keyed (st\<lparr>completedToolCalls := cs, toolCallBuffer := map_delete k (toolCallBuffer st)\<rparr>)"
  unfolding buffer_keyed_def using set_map_delete [of k "toolCallBuffer st"] by auto

lemma buffered_index:
  "buffer_keyed st \<Longrightarrow> map_of (toolCallBuffer st) k = Some b \<Longrightarrow> toolCallKey (index b) = k"
  unfolding buffer_keyed_def by (auto dest: map_of_SomeD)

lemma emits_nothing:
  assumes "buffer_keyed st'" and "completedToolCalls st' = completedToolCalls st"
  shows "buffer_keyed (snd (completed, st'))
      \<and> (\<exists>new. fst (completed, st') = completed @ new
             \<and> distinct (map slot_of new)
             \<and> set (map slot_of new) \<inter> set (completedToolCalls st) = {}
             \<and> set (completedToolCalls (snd (completed, st')))
                 = set (completedToolCalls st) \<union> set (map slot_of new))"
  using assms by simp

lemma emits_one:
  assumes "buffer_keyed st'" and "slot_of e = key" and "key \<notin> set (completedToolCalls st)"
    and "completedToolCalls st' = set_add key (completedToolCalls st)"
  shows "buffer_keyed (snd (completed @ [e], st'))
      \<and> (\<exists>new. fst (completed @ [e], st') = completed @ new
             \<and> distinct (map slot_of new)
             \<and> set (map slot_of new) \<inter> set (completedToolCalls st) = {}
             \<and> set (completedToolCalls (snd (completed @ [e], st')))
                 = set (completedToolCalls st) \<union> set (map slot_of new))"
proof -
  have "set (completedToolCalls st') = insert key (set (completedToolCalls st))"
    using assms(4) by simp
  with assms(1,2,3) show ?thesis
    by (intro conjI exI [where x = "[e]"]) auto
qed

lemma delta_step_once: "emits_once (delta_step P d)"
proof (rule emits_onceI)
  fix completed st
  assume k: "buffer_keyed st"
  define key where "key = toolCallKey (delta_index d)"
  define t0 where "t0 =
     (case map_of (toolCallBuffer st) key of
        None \<Rightarrow> \<lparr>name = JStr [], arguments = JStr [],
                  callId = js_or (delta_id d) JUndefined, index = delta_index d\<rparr>
      | Some buffered \<Rightarrow> buffered)"
  define t1 where "t1 = (if truthy (delta_id d) \<and> \<not> truthy (callId t0)
                         then t0\<lparr>callId := delta_id d\<rparr> else t0)"
  define t2 where "t2 = (if truthy (function_name d) then t1\<lparr>name := function_name d\<rparr> else t1)"
  define t3 where "t3 = (if truthy (function_arguments d)
                         then t2\<lparr>arguments := JStr (to_String (arguments t2)
                                @ to_String (function_arguments d))\<rparr>
                         else t2)"
  define st1 where "st1 = st\<lparr>toolCallBuffer := map_set key t3 (toolCallBuffer st)\<rparr>"
  define e where "e = \<lparr>name = name t3, arguments = arguments t3,
                        callId = js_or (callId t3) (JStr (''temp_'' @ to_String (delta_index d))),
                        index = index t3\<rparr>"
  define st2 where "st2 = st1\<lparr>completedToolCalls := set_add key (completedToolCalls st1),
                             toolCallBuffer := map_delete key (toolCallBuffer st1)\<rparr>"
  have "toolCallKey (index t0) = key"
    using buffered_index [OF k, of key] by (auto simp: t0_def key_def split: option.splits)
  then have i3: "toolCallKey (index t3) = key"
    by (simp add: t3_def t2_def t1_def)
  have k1: "buffer_keyed st1"
    unfolding st1_def by (rule buffer_keyed_set [OF k i3])
  have c1: "completedToolCalls st1 = completedToolCalls st"
    by (simp add: st1_def)
  have k2: "buffer_keyed st2"
    unfolding st2_def by (rule buffer_keyed_delete [OF k1])
  have c2: "completedToolCalls st2 = set_add key (completedToolCalls st)"
    by (simp add: st2_def st1_def)
  have se: "slot_of e = key"
    by (simp add: slot_of_def e_def i3)
  have run: "delta_step P d (completed, st) =
      (if key \<in> set (completedToolCalls st) then (completed, st)
       else if truthy (name t3) \<and> truthy (arguments t3) \<and> trim (to_String (arguments t3)) \<noteq> []
       then (case JSON_parse P (to_String (arguments t3)) of
               None \<Rightarrow> (completed, st1)
             | Some parsedArgs \<Rightarrow> (completed @ [e], st2))
       else (completed, st1))"
    by (simp only: delta_step_def Let_def key_def t0_def t1_def t2_def t3_def st1_def e_def
        st2_def prod.case)
  show "buffer_keyed (snd (delta_step P d (completed, st)))
      \<and> (\<exists>new. fst (delta_step P d (completed, st)) = completed @ new
             \<and> distinct (map slot_of new)
             \<and> set (map slot_of new) \<inter> set (completedToolCalls st) = {}
             \<and> set (completedToolCalls (snd (delta_step P d (completed, st))))
                 = set (completedToolCalls st) \<union> set (map slot_of new))"
  proof (cases "key \<in> set (completedToolCalls st)")
    case True
    with run emits_nothing [OF k refl] show ?thesis by simp
  next
    case False
    show ?thesis
    proof (cases "truthy (name t3) \<and> truthy (arguments t3) \<and> trim (to_String (arguments t3)) \<noteq> []")
      case no: False
      with run False emits_nothing [OF k1 c1] show ?thesis by simp
    next
      case yes: True
      show ?thesis
      proof (cases "JSON_parse P (to_String (arguments t3))")
        case None
        with run False yes emits_nothing [OF k1 c1] show ?thesis by simp
      next
        case (Some v)
        with run False yes emits_one [OF k2 se False c2] show ?thesis by simp
      qed
    qed
  qed
qed

lemma message_step_once: "emits_once (message_step P t)"
proof (rule emits_onceI)
  fix completed st
  assume k: "buffer_keyed st"
  define key where "key = toolCallKey (delta_index t)"
  define e1 where "e1 = \<lparr>name = function_name t, arguments = function_arguments t,
                         callId = delta_id t, index = delta_index t\<rparr>"
  define e2 where "e2 b = \<lparr>name = name b, arguments = arguments b,
                           callId = js_or (callId b)
                                      (js_or (delta_id t)
                                         (JStr (''temp_'' @ to_String (delta_index t)))),
                           index = index b\<rparr>" for b :: streamedToolCall
  define st2 where "st2 = st\<lparr>completedToolCalls := set_add key (completedToolCalls st),
                            toolCallBuffer := map_delete key (toolCallBuffer st)\<rparr>"
  have k2: "buffer_keyed st2"
    unfolding st2_def by (rule buffer_keyed_delete [OF k])
  have c2: "completedToolCalls st2 = set_add key (completedToolCalls st)"
    by (simp add: st2_def)
  have s1: "slot_of e1 = key"
    by (simp add: slot_of_def e1_def key_def)
  have s2: "slot_of (e2 b) = key" if "map_of (toolCallBuffer st) key = Some b" for b
    using buffered_index [OF k that] by (simp add: slot_of_def e2_def)
  have run: "message_step P t (completed, st) =
      (if key \<in> set (completedToolCalls st) then (completed, st)
       else if truthy (function_name t) \<and> truthy (function_arguments t)
       then (case JSON_parse P (to_String (function_arguments t)) of
               Some parsedArgs \<Rightarrow> (completed @ [e1], st2)
             | None \<Rightarrow>
                (case map_of (toolCallBuffer st) key of
                   None \<Rightarrow> (completed, st)
                 | Some bufferedToolCall \<Rightarrow>
                     if truthy (name bufferedToolCall) \<and> truthy (arguments bufferedToolCall)
                     then (case JSON_parse P (to_String (arguments bufferedToolCall)) of
                             None \<Rightarrow> (completed, st)
                           | Some parsedArgs \<Rightarrow> (completed @ [e2 bufferedToolCall], st2))
                     else (completed, st)))
       else (completed, st))"
    by (simp only: message_step_def Let_def key_def e1_def e2_def st2_def prod.case)
  note silent = emits_nothing [OF k refl]
  show "buffer_keyed (snd (message_step P t (completed, st)))
      \<and> (\<exists>new. fst (message_step P t (completed, st)) = completed @ new
             \<and> distinct (map slot_of new)
             \<and> set (map slot_of new) \<inter> set (completedToolCalls st) = {}
             \<and> set (completedToolCalls (snd (message_step P t (completed, st))))
                 = set (completedToolCalls st) \<union> set (map slot_of new))"
  proof (cases "key \<in> set (completedToolCalls st)")
    case True
    with run silent show ?thesis by simp
  next
    case False
    show ?thesis
    proof (cases "truthy (function_name t) \<and> truthy (function_arguments t)")
      case no: False
      with run False silent show ?thesis by simp
    next
      case yes: True
      show ?thesis
      proof (cases "JSON_parse P (to_String (function_arguments t))")
        case (Some v)
        with run False yes emits_one [OF k2 s1 False c2] show ?thesis by simp
      next
        case None
        show ?thesis
        proof (cases "map_of (toolCallBuffer st) key")
          case nobuf: None
          with run False yes None silent show ?thesis by simp
        next
          case (Some b)
          show ?thesis
          proof (cases "truthy (name b) \<and> truthy (arguments b)")
            case False
            with run \<open>key \<notin> set (completedToolCalls st)\<close> yes None Some silent
            show ?thesis by simp
          next
            case full: True
            show ?thesis
            proof (cases "JSON_parse P (to_String (arguments b))")
              case none2: None
              with run False yes None Some full silent show ?thesis by simp
            next
              case (Some v)
              with run False yes None \<open>map_of (toolCallBuffer st) key = Some b\<close> full
                emits_one [OF k2 s2 [OF \<open>map_of (toolCallBuffer st) key = Some b\<close>] False c2]
              show ?thesis by simp
            qed
          qed
        qed
      qed
    qed
  qed
qed

lemma choice_step_once: "emits_once (choice_step P c)"
proof -
  have d: "emits_once (fold (delta_step P) (delta_tool_calls c))"
    by (rule emits_once_fold) (rule delta_step_once)
  have m: "emits_once (fold (message_step P) (message_tool_calls c))"
    by (rule emits_once_fold) (rule message_step_once)
  from emits_once_comp [OF d m] d show ?thesis
    unfolding emits_once_def choice_step_def Let_def by simp
qed

lemma whole_call_step_silent:
  "\<not> (truthy (name t) \<and> truthy (arguments t)) \<Longrightarrow> whole_call_step P t acc = acc"
  by (cases acc) (auto simp: whole_call_step_def)

lemma parseChunk_streaming:
  "streaming_only c \<Longrightarrow> parseChunk P c st = fold (choice_step P) (choices c) ([], st)"
  by (simp add: parseChunk_def streaming_only_def whole_call_step_silent)

lemma parseChunk_once:
  assumes "buffer_keyed st" and "streaming_only c"
  shows "buffer_keyed (snd (parseChunk P c st))
       \<and> distinct (map slot_of (fst (parseChunk P c st)))
       \<and> set (map slot_of (fst (parseChunk P c st))) \<inter> set (completedToolCalls st) = {}
       \<and> set (completedToolCalls (snd (parseChunk P c st)))
           = set (completedToolCalls st) \<union> set (map slot_of (fst (parseChunk P c st)))"
proof -
  have "emits_once (fold (choice_step P) (choices c))"
    by (rule emits_once_fold) (rule choice_step_once)
  from this [unfolded emits_once_def, rule_format, of "([], st)"] assms(1)
  show ?thesis by (auto simp: parseChunk_streaming [OF assms(2)])
qed

text \<open>
  On chunks of the streaming format the guard holds.  Over any sequence of them, no two
  emitted calls have the same slot key, no call is emitted for a slot key that was
  retired before the sequence, and the slot keys retired after it are those retired
  before and those of the emitted calls.
\<close>

lemma streaming_emits_once:
  assumes "buffer_keyed st" and "list_all streaming_only cs"
  shows "buffer_keyed (snd (parseChunks P cs st))
       \<and> distinct (map slot_of (fst (parseChunks P cs st)))
       \<and> set (map slot_of (fst (parseChunks P cs st))) \<inter> set (completedToolCalls st) = {}
       \<and> set (completedToolCalls (snd (parseChunks P cs st)))
           = set (completedToolCalls st) \<union> set (map slot_of (fst (parseChunks P cs st)))"
  using assms
proof (induction cs arbitrary: st)
  case Nil
  then show ?case by simp
next
  case (Cons c cs)
  from Cons.prems(2) have sc: "streaming_only c" and scs: "list_all streaming_only cs"
    by simp_all
  obtain out1 st1 where r1: "parseChunk P c st = (out1, st1)" by (cases "parseChunk P c st") auto
  obtain out2 st2 where r2: "parseChunks P cs st1 = (out2, st2)" by (cases "parseChunks P cs st1") auto
  from parseChunk_once [OF Cons.prems(1) sc, of P] r1
  have a: "buffer_keyed st1" "distinct (map slot_of out1)"
    "set (map slot_of out1) \<inter> set (completedToolCalls st) = {}"
    "set (completedToolCalls st1) = set (completedToolCalls st) \<union> set (map slot_of out1)"
    by auto
  from Cons.IH [OF a(1) scs] r2
  have b: "buffer_keyed st2" "distinct (map slot_of out2)"
    "set (map slot_of out2) \<inter> set (completedToolCalls st1) = {}"
    "set (completedToolCalls st2) = set (completedToolCalls st1) \<union> set (map slot_of out2)"
    by auto
  have "parseChunks P (c # cs) st = (out1 @ out2, st2)" using r1 r2 by simp
  moreover have "distinct (map slot_of (out1 @ out2))" using a b by auto
  moreover have "set (map slot_of (out1 @ out2)) \<inter> set (completedToolCalls st) = {}"
    using a b by auto
  moreover have "set (completedToolCalls st2)
      = set (completedToolCalls st) \<union> set (map slot_of (out1 @ out2))"
    using a b by auto
  ultimately show ?case using b(1) by simp
qed



section \<open>Properties of the Assembler on free text\<close>

lemma index_of_at_start: "index_of fence (fence @ s) = Some 0"
  by (simp add: fence_def)

lemma not_word_newline: "\<not> word_char (CHR 0x0A)"
  by (simp add: word_char_def)

lemma match_language_tag:
  assumes "list_all word_char tag"
  shows "match_language (tag @ CHR 0x0A # rest) = tag"
    and "match_length (tag @ CHR 0x0A # rest) = Suc (length tag)"
proof -
  from assms have all: "\<forall>c\<in>set tag. word_char c" by (simp add: list_all_iff)
  then have t: "takeWhile word_char (tag @ CHR 0x0A # rest) = tag"
    by (simp add: takeWhile_append2 not_word_newline)
  from all have d: "dropWhile word_char (tag @ CHR 0x0A # rest) = CHR 0x0A # rest"
    by (simp add: dropWhile_append2 not_word_newline)
  from t show "match_language (tag @ CHR 0x0A # rest) = tag" by (simp add: match_language_def)
  from t d show "match_length (tag @ CHR 0x0A # rest) = Suc (length tag)"
    by (simp add: match_length_def)
qed

lemma trim_idem: "trim (trim s) = trim s"
proof -
  define u where "u = dropWhile is_space s"
  define v where "v = rev (dropWhile is_space (rev u))"
  have tv: "trim s = v" by (simp add: trim_def u_def v_def)
  have rv: "rev v = dropWhile is_space (rev u)" by (simp add: v_def)
  have b: "dropWhile is_space (rev v) = rev v"
    unfolding rv by simp
  have "v @ rev (takeWhile is_space (rev u))
          = rev (takeWhile is_space (rev u) @ dropWhile is_space (rev u))"
    by (simp add: v_def del: takeWhile_dropWhile_id)
  also have "\<dots> = u" by simp
  finally have uv: "u = v @ rev (takeWhile is_space (rev u))" by simp
  have c: "dropWhile is_space v = v"
  proof (cases v)
    case Nil
    then show ?thesis by simp
  next
    case (Cons a as)
    from uv obtain w where "u = v @ w" by blast
    with Cons have hu: "u \<noteq> []" "hd u = a" by auto
    from hu(1) hd_dropWhile [of is_space s] have "\<not> is_space (hd u)" by (simp add: u_def)
    with hu(2) Cons show ?thesis by simp
  qed
  have "trim v = v" by (simp add: trim_def c b)
  with tv show ?thesis by simp
qed

lemma cut_whole: "substring s 0 (length s) = s"
  by (simp add: substring_def)

lemma cut_content:
  "substring (fence @ tag @ CHR 0x0A # body @ fence) (3 + Suc (length tag))
     (length (fence @ tag @ CHR 0x0A # body @ fence) - 3) = body"
proof -
  define pre where "pre = fence @ tag @ [CHR 0x0A]"
  have lp: "length pre = 3 + Suc (length tag)" by (simp add: pre_def fence_def)
  have lf: "length fence = 3" by (simp add: fence_def)
  have e: "fence @ tag @ CHR 0x0A # body @ fence = pre @ body @ fence"
    by (simp add: pre_def)
  show ?thesis
    unfolding e using lp lf by (simp add: substring_def)
qed

text \<open>
  Claim C6.  A fenced block is fed to a parser with an empty buffer in two calls: the
  first brings the opening fence, a tag of the allow-list, a newline and a part of the
  payload, with no second fence; the second brings the rest and the closing fence, which
  is the first fence after the opening one.  If the payload, trimmed, starts with \<open>[\<close> and
  parses as an array with one valid element, the first call returns no instruction, the
  second returns that element and nothing else, and the buffer is empty again.
\<close>

theorem split_block_emits_once:
  assumes empty: "textBuffer st = []"
    and tag: "list_all word_char tag"
    and allowed: "toLowerCase tag = ''render'' \<or> toLowerCase tag = ''json''
                  \<or> toLowerCase tag = ''javascript'' \<or> toLowerCase tag = ''js''"
    and open1: "index_of fence (tag @ CHR 0x0A # part1) = None"
    and closing: "index_of fence (tag @ CHR 0x0A # part1 @ part2 @ fence)
                    = Some (length (tag @ CHR 0x0A # part1 @ part2))"
    and array: "take 1 (trim (part1 @ part2)) = ''[''"
    and parsed: "JSON_parse P (trim (part1 @ part2)) = Some (JArr items)"
    and valid: "filter isValidCommand items = [command]"
  shows "fst (parseTextChunk P (fence @ tag @ CHR 0x0A # part1) st) = []
       \<and> fst (parseTextChunk P (part2 @ fence)
                (snd (parseTextChunk P (fence @ tag @ CHR 0x0A # part1) st))) = [command]
       \<and> textBuffer (snd (parseTextChunk P (part2 @ fence)
                (snd (parseTextChunk P (fence @ tag @ CHR 0x0A # part1) st)))) = []"
proof -
  define buf1 where "buf1 = fence @ tag @ CHR 0x0A # part1"
  define st0 where "st0 = st\<lparr>textBuffer := buf1\<rparr>"
  have d1: "drop 3 buf1 = tag @ CHR 0x0A # part1" by (simp add: buf1_def fence_def)
  have s1: "index_of fence (textBuffer st0) = Some 0"
    by (simp add: st0_def buf1_def index_of_at_start)
  have first: "fst (scan_blocks P st0) = [] \<and> textBuffer (snd (scan_blocks P st0)) = buf1"
    using s1 open1 d1
    by (subst scan_blocks.simps, subst scan_blocks.simps) (simp add: st0_def Let_def)
  have call1: "parseTextChunk P (fence @ tag @ CHR 0x0A # part1) st = scan_blocks P st0"
    using empty by (simp add: parseTextChunk_def st0_def buf1_def)
  define st1 where "st1 = snd (scan_blocks P st0)"
  define buf2 where "buf2 = fence @ tag @ CHR 0x0A # (part1 @ part2) @ fence"
  define st2 where "st2 = st1\<lparr>textBuffer := buf2\<rparr>"
  have call2: "parseTextChunk P (part2 @ fence) st1 = scan_blocks P st2"
    using first by (simp add: parseTextChunk_def st2_def st1_def buf2_def buf1_def)
  have s2: "index_of fence (textBuffer st2) = Some 0"
    by (simp add: st2_def buf2_def index_of_at_start)
  have d2: "drop 3 (textBuffer st2) = tag @ CHR 0x0A # part1 @ part2 @ fence"
    by (simp add: st2_def buf2_def fence_def)
  have len2: "length buf2 = 3 + length (tag @ CHR 0x0A # part1 @ part2) + 3"
    by (simp add: buf2_def fence_def)
  have full: "substring (textBuffer st2) 0 (3 + length (tag @ CHR 0x0A # part1 @ part2) + 3) = buf2"
    using cut_whole [of buf2] len2 by (simp add: st2_def)
  have d3: "drop 3 buf2 = tag @ CHR 0x0A # (part1 @ part2) @ fence"
    by (simp add: buf2_def fence_def)
  have lang: "toLowerCase (match_language (drop 3 buf2)) = toLowerCase tag"
    unfolding d3 by (simp add: match_language_tag(1) [OF tag])
  have start: "3 + match_length (drop 3 buf2) = 3 + Suc (length tag)"
    unfolding d3 by (simp add: match_language_tag(2) [OF tag])
  have content: "substring buf2 (3 + Suc (length tag)) (length buf2 - 3) = part1 @ part2"
    unfolding buf2_def by (rule cut_content)
  have commands: "parseCodeBlock P (trim (part1 @ part2)) (toLowerCase tag) = [command]"
    using allowed array parsed valid by (auto simp: parseCodeBlock_def trim_idem)
  define st3 where "st3 = st2\<lparr>textBuffer := substring (textBuffer st2) 0 0
                 @ drop (3 + length (tag @ CHR 0x0A # part1 @ part2) + 3) (textBuffer st2),
               currentCodeBlock := None, currentLanguage := None\<rparr>"
  have b3: "textBuffer st3 = []"
    using len2 by (simp add: st3_def st2_def substring_def)
  have last: "scan_blocks P st3 = ([], st3)"
    using b3 by (subst scan_blocks.simps) (simp add: fence_def)
  have second: "scan_blocks P st2 = ([command], st3)"
    apply (subst scan_blocks.simps)
    apply (simp only: s2 option.case Let_def add_0 d2 closing full lang start content commands)
    apply (fold st3_def)
    apply (simp add: last)
    done
  from first call1 call2 second b3 show ?thesis
    by (simp add: st1_def)
qed

theorem split_block_emits_once_witness:
  "fst (parseTextChunk example_platform (fence @ ''render'' @ CHR 0x0A # spec_part1)
          new_text_parser) = []
   \<and> fst (parseTextChunk example_platform (spec_part2 @ fence)
            (snd (parseTextChunk example_platform (fence @ ''render'' @ CHR 0x0A # spec_part1)
                    new_text_parser)))
       = [spec_command]"
proof -
  have empty: "textBuffer new_text_parser = []"
    by (simp add: new_text_parser_def)
  have tag: "list_all word_char ''render''"
    by code_simp
  have allowed: "toLowerCase ''render'' = ''render'' \<or> toLowerCase ''render'' = ''json''
                  \<or> toLowerCase ''render'' = ''javascript'' \<or> toLowerCase ''render'' = ''js''"
    by code_simp
  have open1: "index_of fence (''render'' @ CHR 0x0A # spec_part1) = None"
    by code_simp
  have closing: "index_of fence (''render'' @ CHR 0x0A # spec_part1 @ spec_part2 @ fence)
                    = Some (length (''render'' @ CHR 0x0A # spec_part1 @ spec_part2))"
    by code_simp
  have array: "take 1 (trim (spec_part1 @ spec_part2)) = ''[''"
    by code_simp
  have parsed: "JSON_parse example_platform (trim (spec_part1 @ spec_part2))
                  = Some (JArr [spec_command])"
    by code_simp
  have valid: "filter isValidCommand [spec_command] = [spec_command]"
    by code_simp
  from split_block_emits_once [OF empty tag allowed open1 closing array parsed valid]
  show ?thesis by simp
qed

end
